theory Spec2Isabelle
  imports Main "HOL-Library.Word"
begin

section \<open>JavaScript strings\<close>

text \<open>
  A JavaScript string is a sequence of UTF-16 code units. The token, the credentials, the
  keys and values of \<^verbatim>\<open>localStorage\<close> and the strings inside a decoded token are all
  of this type. \<open>js\<close> turns an Isabelle literal into its code units.
\<close>

type_synonym jschar = "16 word"
type_synonym jstring = "jschar list"

definition js :: "string \<Rightarrow> jstring" where
  "js s = map (\<lambda>c. of_nat (of_char c)) s"

text \<open>
  \<^verbatim>\<open>s.split(sep)\<close> for a separator of one code unit: the segments between the
  separators, in order; a string without the separator is its own single segment.
\<close>

fun split :: "jschar \<Rightarrow> jstring \<Rightarrow> jstring list" where
  "split sep [] = [[]]"
| "split sep (c # cs) =
     (if c = sep then [] # split sep cs
      else (case split sep cs of
              [] \<Rightarrow> [[c]]
            | seg # segs \<Rightarrow> (c # seg) # segs))"

text \<open>
  \<^verbatim>\<open>s.trim()\<close> removes the leading and trailing code units that are WhiteSpace or
  LineTerminator in ECMAScript: TAB, LF, VT, FF, CR, SPACE, NBSP, the Unicode space
  separators, LS, PS and the byte order mark.
\<close>

definition is_white_space :: "jschar \<Rightarrow> bool" where
  "is_white_space c \<longleftrightarrow>
     c = 0x9 \<or> c = 0xA \<or> c = 0xB \<or> c = 0xC \<or> c = 0xD \<or> c = 0x20 \<or> c = 0xA0 \<or>
     c = 0x1680 \<or> (0x2000 \<le> c \<and> c \<le> 0x200A) \<or> c = 0x2028 \<or> c = 0x2029 \<or>
     c = 0x202F \<or> c = 0x205F \<or> c = 0x3000 \<or> c = 0xFEFF"

definition trim :: "jstring \<Rightarrow> jstring" where
  "trim s = rev (dropWhile is_white_space (rev (dropWhile is_white_space s)))"

section \<open>atob\<close>

text \<open>
  \<^verbatim>\<open>atob(data)\<close> is the forgiving base64 decoder of the HTML standard: ASCII white
  space is removed; if the length is then a multiple of four, one or two trailing \<open>=\<close>
  are removed; a length of 1 modulo 4, or any code unit outside \<open>A-Z a-z 0-9 + /\<close>,
  is an InvalidCharacterError (here \<open>None\<close>); otherwise every four sextets give three
  bytes, and a rest of three or two sextets gives two or one byte, the surplus bits
  dropped. The result is a string with one code unit below 256 for each byte.
\<close>

definition is_ascii_whitespace :: "jschar \<Rightarrow> bool" where
  "is_ascii_whitespace c \<longleftrightarrow> c = 0x9 \<or> c = 0xA \<or> c = 0xC \<or> c = 0xD \<or> c = 0x20"

definition base64_value :: "jschar \<Rightarrow> nat option" where
  "base64_value c =
     (if 0x41 \<le> c \<and> c \<le> 0x5A then Some (unat c - 0x41)
      else if 0x61 \<le> c \<and> c \<le> 0x7A then Some (unat c - 0x61 + 26)
      else if 0x30 \<le> c \<and> c \<le> 0x39 then Some (unat c - 0x30 + 52)
      else if c = 0x2B then Some 62
      else if c = 0x2F then Some 63
      else None)"

definition strip_padding :: "jstring \<Rightarrow> jstring" where
  "strip_padding d =
     (if length d mod 4 = 0 then
        (case rev d of
           a # b # r \<Rightarrow> if a = 0x3D \<and> b = 0x3D then rev r
                        else if a = 0x3D then rev (b # r) else d
         | _ \<Rightarrow> d)
      else d)"

fun decode_sextets :: "nat list \<Rightarrow> jstring" where
  "decode_sextets (a # b # c # d # r) =
     (let n = ((a * 64 + b) * 64 + c) * 64 + d
      in of_nat (n div 65536) # of_nat (n div 256 mod 256) # of_nat (n mod 256)
           # decode_sextets r)"
| "decode_sextets [a, b, c] =
     (let n = ((a * 64 + b) * 64 + c) div 4
      in [of_nat (n div 256), of_nat (n mod 256)])"
| "decode_sextets [a, b] = [of_nat ((a * 64 + b) div 16)]"
| "decode_sextets _ = []"

definition atob :: "jstring \<Rightarrow> jstring option" where
  "atob s =
     (let d = strip_padding (filter (\<lambda>c. \<not> is_ascii_whitespace c) s)
      in if length d mod 4 = 1 then None
         else map_option decode_sextets (those (map base64_value d)))"

section \<open>JSON values\<close>

text \<open>
  The values \<^verbatim>\<open>JSON.parse\<close> returns, and \<^verbatim>\<open>undefined\<close> for the property that is
  not there. An object is the list of its own properties in the order
  \<^verbatim>\<open>JSON.stringify\<close> and \<^verbatim>\<open>Object.keys\<close> enumerate them. A number is kept as the
  JSON literal that denotes it: its IEEE-754 value is not computed here, and the two
  places that depend on that value (whether the number is zero, and the text
  \<^verbatim>\<open>JSON.stringify\<close> writes for it) are taken from the platform.
\<close>

datatype jsval =
    JUndefined
  | JNull
  | JBool bool
  | JNum jstring
  | JStr jstring
  | JArr "jsval list"
  | JObj "(jstring \<times> jsval) list"

record platform =
  number_truthy :: "jstring \<Rightarrow> bool"
  number_text :: "jstring \<Rightarrow> jstring"

text \<open>The condition of \<^verbatim>\<open>if (v)\<close>, \<^verbatim>\<open>v || w\<close> and \<^verbatim>\<open>v && w\<close>.\<close>

fun truthy :: "platform \<Rightarrow> jsval \<Rightarrow> bool" where
  "truthy P JUndefined = False"
| "truthy P JNull = False"
| "truthy P (JBool b) = b"
| "truthy P (JNum l) = number_truthy P l"
| "truthy P (JStr s) = (s \<noteq> [])"
| "truthy P (JArr vs) = True"
| "truthy P (JObj ms) = True"

text \<open>
  \<^verbatim>\<open>v.name\<close> for a name that no prototype defines (the four claims read from the
  decoded token are such names): the own property of an object, \<^verbatim>\<open>undefined\<close>
  otherwise. On \<^verbatim>\<open>null\<close> and \<^verbatim>\<open>undefined\<close> the read is a TypeError.
\<close>

fun get_prop :: "jsval \<Rightarrow> jstring \<Rightarrow> jsval option" where
  "get_prop JUndefined k = None"
| "get_prop JNull k = None"
| "get_prop (JObj ms) k = Some (case map_of ms k of None \<Rightarrow> JUndefined | Some v \<Rightarrow> v)"
| "get_prop v k = Some JUndefined"

text \<open>
  Creating the property \<open>k\<close> of an object: an existing key keeps its place and takes the
  new value; a new key that is an array index (the canonical decimal text of a number
  below \<open>2^32 - 1\<close>) goes among the array indices, in ascending order, before all other
  keys; any other new key goes last.
\<close>

definition is_digit :: "jschar \<Rightarrow> bool" where
  "is_digit c \<longleftrightarrow> 0x30 \<le> c \<and> c \<le> 0x39"

definition decimal_value :: "jstring \<Rightarrow> nat" where
  "decimal_value ds = foldl (\<lambda>n c. 10 * n + (unat c - 0x30)) 0 ds"

definition array_index :: "jstring \<Rightarrow> nat option" where
  "array_index k =
     (if k \<noteq> [] \<and> list_all is_digit k \<and> (k = [0x30] \<or> hd k \<noteq> 0x30)
         \<and> decimal_value k < 2 ^ 32 - 1
      then Some (decimal_value k) else None)"

fun insert_index :: "nat \<Rightarrow> jstring \<Rightarrow> jsval \<Rightarrow> (jstring \<times> jsval) list \<Rightarrow> (jstring \<times> jsval) list" where
  "insert_index n k v [] = [(k, v)]"
| "insert_index n k v ((k', v') # ms) =
     (case array_index k' of
        None \<Rightarrow> (k, v) # (k', v') # ms
      | Some n' \<Rightarrow> if n < n' then (k, v) # (k', v') # ms
                   else (k', v') # insert_index n k v ms)"

fun replace_value :: "jstring \<Rightarrow> jsval \<Rightarrow> (jstring \<times> jsval) list \<Rightarrow> (jstring \<times> jsval) list" where
  "replace_value k v [] = []"
| "replace_value k v ((k', v') # ms) =
     (if k' = k then (k, v) # ms else (k', v') # replace_value k v ms)"

definition obj_put :: "jstring \<Rightarrow> jsval \<Rightarrow> (jstring \<times> jsval) list \<Rightarrow> (jstring \<times> jsval) list" where
  "obj_put k v ms =
     (if k \<in> fst ` set ms then replace_value k v ms
      else (case array_index k of
              None \<Rightarrow> ms @ [(k, v)]
            | Some n \<Rightarrow> insert_index n k v ms))"

section \<open>JSON.parse\<close>

text \<open>
  \<^verbatim>\<open>JSON.parse(text)\<close> in two passes over the JSON grammar of ECMAScript: the text is
  cut into tokens, and the tokens are read by a stack automaton. \<open>None\<close> is the
  SyntaxError. White space is TAB, LF, CR and SPACE; a string may hold any code unit
  from \<open>0x20\<close> on apart from the quote and the backslash, and the escapes
  \<^verbatim>\<open>\" \\ \/ \b \f \n \r \t \uXXXX\<close>; a number is
  \<^verbatim>\<open>-? (0 | [1-9][0-9]*) (. [0-9]+)? ([eE] [+-]? [0-9]+)?\<close>. Of two members with
  the same key the later gives the value. The depth of nesting is not bounded here.
\<close>

datatype token =
    TLBrace | TRBrace | TLBracket | TRBracket | TComma | TColon
  | TString jstring | TNumber jstring | TTrue | TFalse | TNull

definition hex_value :: "jschar \<Rightarrow> nat option" where
  "hex_value c =
     (if 0x30 \<le> c \<and> c \<le> 0x39 then Some (unat c - 0x30)
      else if 0x61 \<le> c \<and> c \<le> 0x66 then Some (unat c - 0x61 + 10)
      else if 0x41 \<le> c \<and> c \<le> 0x46 then Some (unat c - 0x41 + 10)
      else None)"

definition simple_escape :: "jschar \<Rightarrow> jschar option" where
  "simple_escape e =
     (if e = 0x22 then Some 0x22
      else if e = 0x5C then Some 0x5C
      else if e = 0x2F then Some 0x2F
      else if e = 0x62 then Some 0x8
      else if e = 0x66 then Some 0xC
      else if e = 0x6E then Some 0xA
      else if e = 0x72 then Some 0xD
      else if e = 0x74 then Some 0x9
      else None)"

definition unicode_escape_value :: "jschar \<Rightarrow> jschar \<Rightarrow> jschar \<Rightarrow> jschar \<Rightarrow> jschar option" where
  "unicode_escape_value h1 h2 h3 h4 =
     (case (hex_value h1, hex_value h2, hex_value h3, hex_value h4) of
        (Some a, Some b, Some c, Some d) \<Rightarrow> Some (of_nat (((a * 16 + b) * 16 + c) * 16 + d))
      | _ \<Rightarrow> None)"

text \<open>The characters of a string after its opening quote, and the text after its closing quote.\<close>

fun scan_string :: "jstring \<Rightarrow> (jstring \<times> jstring) option" where
  "scan_string [] = None"
| "scan_string [c] = (if c = 0x22 then Some ([], []) else None)"
| "scan_string (c # e # cs) =
     (if c = 0x22 then Some ([], e # cs)
      else if c = 0x5C then
        (if e = 0x75 then
           (case cs of
              h1 # h2 # h3 # h4 # r \<Rightarrow>
                (case unicode_escape_value h1 h2 h3 h4 of
                   None \<Rightarrow> None
                 | Some u \<Rightarrow> map_option (\<lambda>(v, t). (u # v, t)) (scan_string r))
            | _ \<Rightarrow> None)
         else
           (case simple_escape e of
              None \<Rightarrow> None
            | Some x \<Rightarrow> map_option (\<lambda>(v, t). (x # v, t)) (scan_string cs)))
      else if c < 0x20 then None
      else map_option (\<lambda>(v, t). (c # v, t)) (scan_string (e # cs)))"

text \<open>The literal of a number at the start of the text, and the text after it.\<close>

definition scan_digits :: "jstring \<Rightarrow> (jstring \<times> jstring) option" where
  "scan_digits s =
     (if takeWhile is_digit s = [] then None
      else Some (takeWhile is_digit s, dropWhile is_digit s))"

definition scan_int :: "jstring \<Rightarrow> (jstring \<times> jstring) option" where
  "scan_int s =
     (case s of
        [] \<Rightarrow> None
      | c # r \<Rightarrow> if c = 0x30 then Some ([c], r) else scan_digits s)"

definition scan_frac :: "jstring \<Rightarrow> (jstring \<times> jstring) option" where
  "scan_frac s =
     (case s of
        [] \<Rightarrow> Some ([], s)
      | c # r \<Rightarrow>
          if c = 0x2E then map_option (\<lambda>(ds, t). (c # ds, t)) (scan_digits r)
          else Some ([], s))"

definition scan_exp :: "jstring \<Rightarrow> (jstring \<times> jstring) option" where
  "scan_exp s =
     (case s of
        [] \<Rightarrow> Some ([], s)
      | c # r \<Rightarrow>
          if c = 0x65 \<or> c = 0x45 then
            (case r of
               [] \<Rightarrow> None
             | g # r' \<Rightarrow>
                 if g = 0x2B \<or> g = 0x2D
                 then map_option (\<lambda>(ds, t). (c # g # ds, t)) (scan_digits r')
                 else map_option (\<lambda>(ds, t). (c # ds, t)) (scan_digits r))
          else Some ([], s))"

definition scan_number :: "jstring \<Rightarrow> (jstring \<times> jstring) option" where
  "scan_number s =
     (let (sign, s0) = (case s of
                          [] \<Rightarrow> ([], s)
                        | c # r \<Rightarrow> if c = 0x2D then ([c], r) else ([], s))
      in case scan_int s0 of
           None \<Rightarrow> None
         | Some (i, s1) \<Rightarrow>
             (case scan_frac s1 of
                None \<Rightarrow> None
              | Some (f, s2) \<Rightarrow>
                  (case scan_exp s2 of
                     None \<Rightarrow> None
                   | Some (e, s3) \<Rightarrow> Some (sign @ i @ f @ e, s3))))"

definition is_json_whitespace :: "jschar \<Rightarrow> bool" where
  "is_json_whitespace c \<longleftrightarrow> c = 0x9 \<or> c = 0xA \<or> c = 0xD \<or> c = 0x20"

definition strip_prefix :: "jstring \<Rightarrow> jstring \<Rightarrow> jstring option" where
  "strip_prefix p s = (if take (length p) s = p then Some (drop (length p) s) else None)"

text \<open>The first token of a text that starts with no white space, and the text after it.\<close>

definition next_token :: "jstring \<Rightarrow> (token \<times> jstring) option" where
  "next_token s =
     (case s of
        [] \<Rightarrow> None
      | c # r \<Rightarrow>
          if c = 0x7B then Some (TLBrace, r)
          else if c = 0x7D then Some (TRBrace, r)
          else if c = 0x5B then Some (TLBracket, r)
          else if c = 0x5D then Some (TRBracket, r)
          else if c = 0x2C then Some (TComma, r)
          else if c = 0x3A then Some (TColon, r)
          else if c = 0x22 then map_option (\<lambda>(v, t). (TString v, t)) (scan_string r)
          else if c = 0x2D \<or> is_digit c then map_option (\<lambda>(l, t). (TNumber l, t)) (scan_number s)
          else if c = 0x74 then map_option (Pair TTrue) (strip_prefix (js ''true'') s)
          else if c = 0x66 then map_option (Pair TFalse) (strip_prefix (js ''false'') s)
          else if c = 0x6E then map_option (Pair TNull) (strip_prefix (js ''null'') s)
          else None)"

lemma scan_string_shorter: "scan_string s = Some (v, t) \<Longrightarrow> length t < length s"
proof (induction s arbitrary: v t rule: scan_string.induct)
  case 1
  then show ?case by simp
next
  case (2 c)
  then show ?case by (simp split: if_splits)
next
  case (3 c e cs)
  show ?case
  proof (cases "c = 0x22")
    case True
    with "3.prems" show ?thesis by simp
  next
    case quote: False
    show ?thesis
    proof (cases "c = 0x5C")
      case bs: True
      show ?thesis
      proof (cases "e = 0x75")
        case True
        with quote bs "3.prems" obtain h1 h2 h3 h4 r u v' where
          cs: "cs = h1 # h2 # h3 # h4 # r" and
          u: "unicode_escape_value h1 h2 h3 h4 = Some u" and
          r: "scan_string r = Some (v', t)"
          by (auto split: list.splits option.splits)
        from "3.IH"(1) quote bs True cs u r show ?thesis by fastforce
      next
        case False
        with quote bs "3.prems" obtain x v' where
          x: "simple_escape e = Some x" and r: "scan_string cs = Some (v', t)"
          by (auto split: option.splits)
        from "3.IH"(2) quote bs False x r show ?thesis by fastforce
      qed
    next
      case False
      with quote "3.prems" obtain v' where
        lo: "\<not> c < 0x20" and r: "scan_string (e # cs) = Some (v', t)"
        by (auto split: if_splits)
      from "3.IH"(3) quote False lo r show ?thesis by fastforce
    qed
  qed
qed

lemma scan_digits_shorter: "scan_digits s = Some (v, t) \<Longrightarrow> length t < length s"
  by (cases s) (auto simp: scan_digits_def length_dropWhile_le less_Suc_eq_le split: if_splits)

lemma scan_digits_no_longer: "scan_digits s = Some (v, t) \<Longrightarrow> length t \<le> length s"
  by (drule scan_digits_shorter) simp

lemma scan_int_shorter: "scan_int s = Some (v, t) \<Longrightarrow> length t < length s"
  by (auto simp: scan_int_def split: list.splits if_splits dest: scan_digits_shorter)

lemma scan_frac_no_longer: "scan_frac s = Some (v, t) \<Longrightarrow> length t \<le> length s"
  by (auto simp: scan_frac_def split: list.splits if_splits dest!: scan_digits_no_longer)

lemma scan_exp_no_longer: "scan_exp s = Some (v, t) \<Longrightarrow> length t \<le> length s"
  by (auto simp: scan_exp_def split: list.splits if_splits dest!: scan_digits_no_longer)

lemma scan_number_shorter: "scan_number s = Some (v, t) \<Longrightarrow> length t < length s"
  by (auto simp: scan_number_def split: list.splits if_splits option.splits
      dest!: scan_int_shorter scan_frac_no_longer scan_exp_no_longer)

lemma strip_prefix_shorter: "p \<noteq> [] \<Longrightarrow> strip_prefix p s = Some t \<Longrightarrow> length t < length s"
  by (cases s) (auto simp: strip_prefix_def split: if_splits)

lemma next_token_shorter: "next_token s = Some (tk, t) \<Longrightarrow> length t < length s"
  by (cases s)
     (auto simp: next_token_def js_def split: if_splits
       dest!: scan_string_shorter scan_number_shorter strip_prefix_shorter [rotated])

function tokenize :: "jstring \<Rightarrow> token list option" where
  "tokenize [] = Some []"
| "tokenize (c # cs) =
     (if is_json_whitespace c then tokenize cs
      else (case next_token (c # cs) of
              None \<Rightarrow> None
            | Some (tk, t) \<Rightarrow> map_option ((#) tk) (tokenize t)))"
  by pat_completeness auto
termination
  by (relation "measure length") (auto dest: next_token_shorter)

text \<open>
  The automaton. A frame of the stack is a container that is still open: an array with
  the elements read so far (the last one first), an object with its members, or an
  object with its members and the key whose value is being read.
\<close>

datatype frame =
    FArr "jsval list"
  | FObj "(jstring \<times> jsval) list"
  | FMember "(jstring \<times> jsval) list" jstring

datatype expect = EValue | EValueOrEnd | EKeyOrEnd | EKey | EColon | ESeparator | EDone jsval

fun complete_value :: "jsval \<Rightarrow> frame list \<Rightarrow> (expect \<times> frame list) option" where
  "complete_value v [] = Some (EDone v, [])"
| "complete_value v (FArr es # st) = Some (ESeparator, FArr (v # es) # st)"
| "complete_value v (FMember ms k # st) = Some (ESeparator, FObj (obj_put k v ms) # st)"
| "complete_value v (FObj ms # st) = None"

fun begin_value :: "token \<Rightarrow> frame list \<Rightarrow> (expect \<times> frame list) option" where
  "begin_value TLBracket st = Some (EValueOrEnd, FArr [] # st)"
| "begin_value TLBrace st = Some (EKeyOrEnd, FObj [] # st)"
| "begin_value (TString s) st = complete_value (JStr s) st"
| "begin_value (TNumber l) st = complete_value (JNum l) st"
| "begin_value TTrue st = complete_value (JBool True) st"
| "begin_value TFalse st = complete_value (JBool False) st"
| "begin_value TNull st = complete_value JNull st"
| "begin_value _ st = None"

fun parse_step :: "expect \<times> frame list \<Rightarrow> token \<Rightarrow> (expect \<times> frame list) option" where
  "parse_step (EValue, st) tk = begin_value tk st"
| "parse_step (EValueOrEnd, FArr es # st) TRBracket = complete_value (JArr (rev es)) st"
| "parse_step (EValueOrEnd, st) tk = begin_value tk st"
| "parse_step (EKeyOrEnd, FObj ms # st) TRBrace = complete_value (JObj ms) st"
| "parse_step (EKeyOrEnd, FObj ms # st) (TString k) = Some (EColon, FMember ms k # st)"
| "parse_step (EKey, FObj ms # st) (TString k) = Some (EColon, FMember ms k # st)"
| "parse_step (EColon, st) TColon = Some (EValue, st)"
| "parse_step (ESeparator, FArr es # st) TComma = Some (EValue, FArr es # st)"
| "parse_step (ESeparator, FArr es # st) TRBracket = complete_value (JArr (rev es)) st"
| "parse_step (ESeparator, FObj ms # st) TComma = Some (EKey, FObj ms # st)"
| "parse_step (ESeparator, FObj ms # st) TRBrace = complete_value (JObj ms) st"
| "parse_step _ tk = None"

fun parse_tokens :: "expect \<times> frame list \<Rightarrow> token list \<Rightarrow> jsval option" where
  "parse_tokens (EDone v, []) [] = Some v"
| "parse_tokens q [] = None"
| "parse_tokens q (tk # tks) =
     (case parse_step q tk of
        None \<Rightarrow> None
      | Some q' \<Rightarrow> parse_tokens q' tks)"

definition JSON_parse :: "jstring \<Rightarrow> jsval option" where
  "JSON_parse s =
     (case tokenize s of
        None \<Rightarrow> None
      | Some tks \<Rightarrow> parse_tokens (EValue, []) tks)"

section \<open>JSON.stringify\<close>

text \<open>
  \<^verbatim>\<open>JSON.stringify(v)\<close> with no replacer and no indentation. A string is put in
  quotes with the quote, the backslash, the control characters and every surrogate
  without its partner escaped. The property of an object whose value is
  \<^verbatim>\<open>undefined\<close> is left out, the element of an array that is \<^verbatim>\<open>undefined\<close> is
  written \<open>null\<close>, and \<^verbatim>\<open>JSON.stringify(undefined)\<close> is \<^verbatim>\<open>undefined\<close> (here
  \<open>None\<close>).
\<close>

definition hex_digit :: "nat \<Rightarrow> jschar" where
  "hex_digit n = (if n < 10 then of_nat (0x30 + n) else of_nat (0x61 + (n - 10)))"

definition unicode_escape :: "jschar \<Rightarrow> jstring" where
  "unicode_escape c =
     [0x5C, 0x75, hex_digit (unat c div 4096), hex_digit (unat c div 256 mod 16),
      hex_digit (unat c div 16 mod 16), hex_digit (unat c mod 16)]"

definition is_high_surrogate :: "jschar \<Rightarrow> bool" where
  "is_high_surrogate c \<longleftrightarrow> 0xD800 \<le> c \<and> c \<le> 0xDBFF"

definition is_low_surrogate :: "jschar \<Rightarrow> bool" where
  "is_low_surrogate c \<longleftrightarrow> 0xDC00 \<le> c \<and> c \<le> 0xDFFF"

definition quote_unit :: "jschar \<Rightarrow> jstring" where
  "quote_unit c =
     (if c = 0x8 then [0x5C, 0x62]
      else if c = 0x9 then [0x5C, 0x74]
      else if c = 0xA then [0x5C, 0x6E]
      else if c = 0xC then [0x5C, 0x66]
      else if c = 0xD then [0x5C, 0x72]
      else if c = 0x22 then [0x5C, 0x22]
      else if c = 0x5C then [0x5C, 0x5C]
      else if c < 0x20 \<or> is_high_surrogate c \<or> is_low_surrogate c then unicode_escape c
      else [c])"

fun quote_chars :: "jstring \<Rightarrow> jstring" where
  "quote_chars [] = []"
| "quote_chars [c] = quote_unit c"
| "quote_chars (c # d # cs) =
     (if is_high_surrogate c \<and> is_low_surrogate d then c # d # quote_chars cs
      else quote_unit c @ quote_chars (d # cs))"

definition quote :: "jstring \<Rightarrow> jstring" where
  "quote s = 0x22 # quote_chars s @ [0x22]"

fun join :: "jstring \<Rightarrow> jstring list \<Rightarrow> jstring" where
  "join sep [] = []"
| "join sep [x] = x"
| "join sep (x # y # xs) = x @ sep @ join sep (y # xs)"

fun serialize :: "platform \<Rightarrow> jsval \<Rightarrow> jstring option" where
  "serialize P JUndefined = None"
| "serialize P JNull = Some (js ''null'')"
| "serialize P (JBool b) = Some (if b then js ''true'' else js ''false'')"
| "serialize P (JNum l) = Some (number_text P l)"
| "serialize P (JStr s) = Some (quote s)"
| "serialize P (JArr vs) =
     Some (js ''['' @ join (js '','')
             (map (\<lambda>v. case serialize P v of None \<Rightarrow> js ''null'' | Some t \<Rightarrow> t) vs)
           @ js '']'')"
| "serialize P (JObj ms) =
     Some (js ''{'' @ join (js '','')
             (concat (map (\<lambda>(k, v). case serialize P v of
                                        None \<Rightarrow> []
                                      | Some t \<Rightarrow> [quote k @ js '':'' @ t]) ms))
           @ js ''}'')"

definition JSON_stringify :: "platform \<Rightarrow> jsval \<Rightarrow> jstring option" where
  "JSON_stringify P v = serialize P v"

section \<open>Service/authService.ts\<close>

text \<open>
  The interfaces \<^verbatim>\<open>LoginRequest\<close>, \<^verbatim>\<open>LoginResponse\<close> and \<^verbatim>\<open>ApiError\<close>. The body of
  a response is read through the fields these interfaces declare, each with its declared
  type; a field the server left out reads as the falsy value of its type (\<open>False\<close>, the
  empty string, \<^verbatim>\<open>undefined\<close>), which is what every \<^verbatim>\<open>||\<close> and \<^verbatim>\<open>&&\<close> of the
  code tests for. \<open>data_user\<close> is the optional \<^verbatim>\<open>user\<close> of \<^verbatim>\<open>LoginResponse\<close>; the
  fields of the body are prefixed with \<open>data_\<close> because \<^verbatim>\<open>AuthState\<close> and
  \<^verbatim>\<open>AuthError\<close> have fields of the same names.
\<close>

record LoginRequest =
  email :: jstring
  password :: jstring

record api_data =
  data_success :: bool
  data_accessToken :: jstring
  data_refreshToken :: jstring
  data_expiresIn :: int
  data_message :: jstring
  data_user :: jsval
  data_errors :: "(jstring \<times> jstring list) list option"

record AuthError =
  message :: jstring
  status :: nat
  errors :: "(jstring \<times> jstring list) list option"

text \<open>
  What \<^verbatim>\<open>fetch\<close> resolves to: the status, and the body as \<^verbatim>\<open>response.json()\<close>
  parses it (\<open>None\<close> when the body is not JSON and the call rejects).
  \<^verbatim>\<open>response.ok\<close> is true for the statuses 200 to 299. A \<^verbatim>\<open>fetch\<close> that rejects
  (no connection) is \<open>None\<close> of \<open>Response option\<close>.
\<close>

record Response =
  http_status :: nat
  body_json :: "api_data option"

definition ok :: "Response \<Rightarrow> bool" where
  "ok response \<longleftrightarrow> 200 \<le> http_status response \<and> http_status response \<le> 299"

text \<open>
  The browser as the service sees it: \<^verbatim>\<open>localStorage\<close>, and the requests sent so far
  (the credentials posted to \<^verbatim>\<open>/auth/login\<close>), kept so that a theorem can say that no
  request was sent. Writing to \<^verbatim>\<open>localStorage\<close> is taken to succeed: the storage is
  never full.
\<close>

record browser =
  localStorage :: "jstring \<rightharpoonup> jstring"
  requests :: "LoginRequest list"

definition setItem :: "jstring \<Rightarrow> jstring \<Rightarrow> browser \<Rightarrow> browser" where
  "setItem k v b = b\<lparr>localStorage := (localStorage b)(k \<mapsto> v)\<rparr>"

definition removeItem :: "jstring \<Rightarrow> browser \<Rightarrow> browser" where
  "removeItem k b = b\<lparr>localStorage := (localStorage b)(k := None)\<rparr>"

definition getItem :: "jstring \<Rightarrow> browser \<Rightarrow> jstring option" where
  "getItem k b = localStorage b k"

text \<open>
  What a function of the service throws: an \<^verbatim>\<open>AuthError\<close>, or any other error (the
  SyntaxError of \<^verbatim>\<open>response.json()\<close>, a TypeError).
\<close>

datatype thrown = Auth AuthError | Other

text \<open>
  \<^verbatim>\<open>
  const handleApiResponse = async (response: Response) => {
    const data = await response.json();
    if (!response.ok) {
      throw new AuthError(data.message || 'An error occurred', response.status, data.errors);
    }
    return data;
  };
  \<close>
\<close>

definition handleApiResponse :: "Response \<Rightarrow> thrown + api_data" where
  "handleApiResponse response =
     (case body_json response of
        None \<Rightarrow> Inl Other
      | Some data \<Rightarrow>
          if \<not> ok response then
            Inl (Auth \<lparr>message = (if data_message data \<noteq> [] then data_message data
                                   else js ''An error occurred''),
                       status = http_status response,
                       errors = data_errors data\<rparr>)
          else Inr data)"

text \<open>
  \<^verbatim>\<open>
  const decodeJWT = (token: string) => {
    try {
      const payload = token.split('.')[1];
      const decoded = JSON.parse(atob(payload));
      return decoded;
    } catch (error) {
      console.error('Error decoding JWT:', error);
      return null;
    }
  };
  \<close>
  When the token has no second segment, \<^verbatim>\<open>payload\<close> is \<^verbatim>\<open>undefined\<close> and \<^verbatim>\<open>atob\<close>
  is given the text \<open>undefined\<close>.
\<close>

definition decode_payload :: "jstring \<Rightarrow> jsval" where
  "decode_payload payload =
     (case atob payload of
        None \<Rightarrow> JNull
      | Some text \<Rightarrow> (case JSON_parse text of None \<Rightarrow> JNull | Some decoded \<Rightarrow> decoded))"

definition decodeJWT :: "jstring \<Rightarrow> jsval" where
  "decodeJWT token =
     (case split 0x2E token of
        header # payload # rest \<Rightarrow> decode_payload payload
      | _ \<Rightarrow> decode_payload (js ''undefined''))"

text \<open>
  \<^verbatim>\<open>
  const userInfo = {
    email: decodedToken.email,
    nameid: decodedToken.nameid,
    unique_name: decodedToken.unique_name,
    role: decodedToken.role,
  };
  \<close>
\<close>

definition userInfo :: "jsval \<Rightarrow> jsval option" where
  "userInfo decodedToken =
     (case (get_prop decodedToken (js ''email''), get_prop decodedToken (js ''nameid''),
            get_prop decodedToken (js ''unique_name''), get_prop decodedToken (js ''role'')) of
        (Some e, Some n, Some u, Some r) \<Rightarrow>
          Some (JObj [(js ''email'', e), (js ''nameid'', n), (js ''unique_name'', u),
                      (js ''role'', r)])
      | _ \<Rightarrow> None)"

definition network_error :: AuthError where
  "network_error =
     \<lparr>message = js ''Network error or server unavailable'', status = 500, errors = None\<rparr>"

text \<open>
  \<^verbatim>\<open>
  export const login = async (credentials: LoginRequest): Promise<LoginResponse> => {
    try {
      const response = await fetch(`${API_BASE_URL}/auth/login`, { method: 'POST', ... });
      const data = await handleApiResponse(response);
      if (data.success && data.accessToken) {
        localStorage.setItem('accessToken', data.accessToken);
        localStorage.setItem('refreshToken', data.refreshToken);
        const decodedToken = decodeJWT(data.accessToken);
        if (decodedToken) {
          const userInfo = { ... };
          localStorage.setItem('user', JSON.stringify(userInfo));
          data.user = userInfo;
        }
      }
      return data;
    } catch (error) {
      if (error instanceof AuthError) { throw error; }
      throw new AuthError('Network error or server unavailable', 500);
    }
  };
  \<close>
  The result is the \<^verbatim>\<open>AuthError\<close> thrown or the data returned, and the browser after
  the call. \<open>fetch\<close> is the server: the response to the credentials posted.
\<close>

definition store_session :: "platform \<Rightarrow> api_data \<Rightarrow> browser \<Rightarrow> (thrown + api_data) \<times> browser" where
  "store_session P data b =
     (if data_success data \<and> data_accessToken data \<noteq> [] then
        (let b1 = setItem (js ''accessToken'') (data_accessToken data) b;
             b2 = setItem (js ''refreshToken'') (data_refreshToken data) b1;
             decodedToken = decodeJWT (data_accessToken data)
         in if truthy P decodedToken then
              (case userInfo decodedToken of
                 None \<Rightarrow> (Inl Other, b2)
               | Some info \<Rightarrow>
                   (Inr (data\<lparr>data_user := info\<rparr>),
                    setItem (js ''user'')
                      (case JSON_stringify P info of None \<Rightarrow> js ''undefined'' | Some t \<Rightarrow> t) b2))
            else (Inr data, b2))
      else (Inr data, b))"

definition login :: "platform \<Rightarrow> (LoginRequest \<Rightarrow> Response option) \<Rightarrow> LoginRequest \<Rightarrow> browser
    \<Rightarrow> (AuthError + api_data) \<times> browser" where
  "login P fetch credentials b =
     (let b0 = b\<lparr>requests := requests b @ [credentials]\<rparr>;
          (result, b') =
            (case fetch credentials of
               None \<Rightarrow> (Inl Other, b0)
             | Some response \<Rightarrow>
                 (case handleApiResponse response of
                    Inl e \<Rightarrow> (Inl e, b0)
                  | Inr data \<Rightarrow> store_session P data b0))
      in case result of
           Inl (Auth err) \<Rightarrow> (Inl err, b')
         | Inl Other \<Rightarrow> (Inl network_error, b')
         | Inr data \<Rightarrow> (Inr data, b'))"

text \<open>
  \<^verbatim>\<open>
  export const logout = (): void => {
    localStorage.removeItem('accessToken');
    localStorage.removeItem('refreshToken');
    localStorage.removeItem('user');
  };
  export const getToken = (): string | null => localStorage.getItem('accessToken');
  export const getStoredUser = () => {
    const user = localStorage.getItem('user');
    return user ? JSON.parse(user) : null;
  };
  export const isAuthenticated = (): boolean => { const token = getToken(); return !!token; };
  \<close>
  \<open>logoutApi\<close> is the name \<^verbatim>\<open>authSlice.ts\<close> imports \<^verbatim>\<open>logout\<close> under.
  \<open>getStoredUser\<close> is \<open>None\<close> when \<^verbatim>\<open>JSON.parse\<close> throws.
\<close>

definition logoutApi :: "browser \<Rightarrow> browser" where
  "logoutApi b =
     removeItem (js ''user'') (removeItem (js ''refreshToken'') (removeItem (js ''accessToken'') b))"

definition getToken :: "browser \<Rightarrow> jstring option" where
  "getToken b = getItem (js ''accessToken'') b"

definition getStoredUser :: "browser \<Rightarrow> jsval option" where
  "getStoredUser b =
     (case getItem (js ''user'') b of
        None \<Rightarrow> Some JNull
      | Some user \<Rightarrow> if user \<noteq> [] then JSON_parse user else Some JNull)"

definition isAuthenticated_api :: "browser \<Rightarrow> bool" where
  "isAuthenticated_api b = (case getToken b of None \<Rightarrow> False | Some token \<Rightarrow> token \<noteq> [])"

section \<open>features/auth/authSlice.ts\<close>

text \<open>
  \<^verbatim>\<open>
  export interface AuthState {
    user: { email: string; nameid: string; unique_name: string; role: string; } | null;
    accessToken: string | null;
    refreshToken: string | null;
    isAuthenticated: boolean;
    loading: boolean;
    error: string | null;
    loginMessage: string | null;
  }
  \<close>
  The user is the object itself (\<open>JNull\<close> for \<^verbatim>\<open>null\<close>), so that the names of its
  properties are part of the state.
\<close>

record AuthState =
  user :: jsval
  accessToken :: "jstring option"
  refreshToken :: "jstring option"
  isAuthenticated :: bool
  loading :: bool
  error :: "jstring option"
  loginMessage :: "jstring option"

text \<open>
  \<^verbatim>\<open>
  const initialState: AuthState = {
    user: getStoredUser() || null,
    accessToken: localStorage.getItem('accessToken'),
    refreshToken: localStorage.getItem('refreshToken'),
    isAuthenticated: isAuthenticated(),
    loading: false, error: null, loginMessage: null,
  };
  \<close>
  It is computed once, when the module is loaded, from the browser's storage; \<open>None\<close>
  when \<^verbatim>\<open>getStoredUser\<close> throws.
\<close>

definition initialState :: "platform \<Rightarrow> browser \<Rightarrow> AuthState option" where
  "initialState P b =
     (case getStoredUser b of
        None \<Rightarrow> None
      | Some stored \<Rightarrow>
          Some \<lparr>user = (if truthy P stored then stored else JNull),
                accessToken = getItem (js ''accessToken'') b,
                refreshToken = getItem (js ''refreshToken'') b,
                isAuthenticated = isAuthenticated_api b,
                loading = False,
                error = None,
                loginMessage = None\<rparr>)"

text \<open>
  The store and its surroundings: the browser and the state of the slice. The
  \<^verbatim>\<open>logout\<close> reducer and the thunk change both.
\<close>

record world =
  browser :: browser
  auth :: AuthState

text \<open>
  \<^verbatim>\<open>
  logout: (state) => {
    logoutApi(); // Clear localStorage
    state.user = null; state.accessToken = null; state.refreshToken = null;
    state.isAuthenticated = false; state.error = null; state.loading = false;
    state.loginMessage = null;
  },
  clearError: (state) => { state.error = null; },
  setLoading: (state, action: PayloadAction<boolean>) => { state.loading = action.payload; },
  \<close>
\<close>

definition logout :: "world \<Rightarrow> world" where
  "logout w =
     \<lparr>browser = logoutApi (browser w),
      auth = (auth w)\<lparr>user := JNull, accessToken := None, refreshToken := None,
                      isAuthenticated := False, error := None, loading := False,
                      loginMessage := None\<rparr>\<rparr>"

definition clearError :: "AuthState \<Rightarrow> AuthState" where
  "clearError state = state\<lparr>error := None\<rparr>"

definition setLoading :: "AuthState \<Rightarrow> bool \<Rightarrow> AuthState" where
  "setLoading state payload = state\<lparr>loading := payload\<rparr>"

text \<open>
  \<^verbatim>\<open>
  .addCase(loginAsync.pending, (state) => { state.loading = true; state.error = null; })
  .addCase(loginAsync.fulfilled, (state, action) => {
    state.loading = false;
    state.user = action.payload.user || null;
    state.accessToken = action.payload.accessToken || null;
    state.refreshToken = action.payload.refreshToken || null;
    state.isAuthenticated = true;
    state.error = null;
    state.loginMessage = action.payload.message || null;
  })
  .addCase(loginAsync.rejected, (state, action) => {
    state.loading = false;
    state.user = null; state.accessToken = null; state.refreshToken = null;
    state.isAuthenticated = false;
    state.error = action.payload as string;
    state.loginMessage = null;
  });
  \<close>
\<close>

definition pending :: "AuthState \<Rightarrow> AuthState" where
  "pending state = state\<lparr>loading := True, error := None\<rparr>"

definition or_null :: "jstring \<Rightarrow> jstring option" where
  "or_null s = (if s \<noteq> [] then Some s else None)"

definition fulfilled :: "platform \<Rightarrow> AuthState \<Rightarrow> api_data \<Rightarrow> AuthState" where
  "fulfilled P state payload =
     state\<lparr>loading := False,
           user := (if truthy P (data_user payload) then data_user payload else JNull),
           accessToken := or_null (data_accessToken payload),
           refreshToken := or_null (data_refreshToken payload),
           isAuthenticated := True,
           error := None,
           loginMessage := or_null (data_message payload)\<rparr>"

definition rejected :: "AuthState \<Rightarrow> jstring \<Rightarrow> AuthState" where
  "rejected state payload =
     state\<lparr>loading := False, user := JNull, accessToken := None, refreshToken := None,
           isAuthenticated := False, error := Some payload, loginMessage := None\<rparr>"

text \<open>
  \<^verbatim>\<open>
  export const loginAsync = createAsyncThunk('auth/login',
    async (credentials: LoginRequest, { rejectWithValue }) => {
      try {
        const response = await loginApi(credentials);
        return response;
      } catch (error: unknown) {
        if (error instanceof Error) { return rejectWithValue(error.message); }
        return rejectWithValue('An unexpected error occurred');
      }
    });
  \<close>
  Dispatching the thunk runs the \<^verbatim>\<open>pending\<close> reducer, then the call, then the
  \<^verbatim>\<open>fulfilled\<close> reducer on the value returned or the \<^verbatim>\<open>rejected\<close> reducer on the
  value rejected with. \<^verbatim>\<open>login\<close> throws nothing but an \<^verbatim>\<open>AuthError\<close>, which is an
  \<^verbatim>\<open>Error\<close>. \<open>loginAsync\<close> is the world once the promise has settled.
\<close>

definition loginAsync :: "platform \<Rightarrow> (LoginRequest \<Rightarrow> Response option) \<Rightarrow> LoginRequest \<Rightarrow> world
    \<Rightarrow> world" where
  "loginAsync P fetch credentials w =
     (let state = pending (auth w)
      in case login P fetch credentials (browser w) of
           (Inl err, b) \<Rightarrow> \<lparr>browser = b, auth = rejected state (message err)\<rparr>
         | (Inr response, b) \<Rightarrow> \<lparr>browser = b, auth = fulfilled P state response\<rparr>)"

section \<open>Components/Login.tsx\<close>

text \<open>
  \<^verbatim>\<open>
  const loginHandler = async (e: React.FormEvent) => {
    e.preventDefault();
    if (!input.email.trim() || !input.password.trim()) { return; }
    try { await dispatch(loginAsync(input)).unwrap(); }
    catch (err) { console.error('Login failed:', err); }
  };
  \<close>
  The form event and the console are not part of the world.
\<close>

definition loginHandler :: "platform \<Rightarrow> (LoginRequest \<Rightarrow> Response option) \<Rightarrow> LoginRequest \<Rightarrow> world
    \<Rightarrow> world" where
  "loginHandler P fetch input w =
     (if trim (email input) = [] \<or> trim (password input) = [] then w
      else loginAsync P fetch input w)"

section \<open>Reachable worlds\<close>

text \<open>
  The worlds the application can be in: it starts with the initial state computed from
  the browser's storage, and then logs in, logs out and clears the error in any order.
  \<open>B\<close> says which browsers it may start in and \<open>F\<close> which servers may answer.
\<close>

inductive reachable :: "platform \<Rightarrow> (browser \<Rightarrow> bool) \<Rightarrow> ((LoginRequest \<Rightarrow> Response option) \<Rightarrow> bool)
    \<Rightarrow> world \<Rightarrow> bool" for P B F where
  start: "B b \<Longrightarrow> initialState P b = Some s \<Longrightarrow> reachable P B F \<lparr>browser = b, auth = s\<rparr>"
| after_login: "reachable P B F w \<Longrightarrow> F fetch \<Longrightarrow> reachable P B F (loginAsync P fetch credentials w)"
| after_logout: "reachable P B F w \<Longrightarrow> reachable P B F (logout w)"
| after_clearError: "reachable P B F w \<Longrightarrow> reachable P B F (w\<lparr>auth := clearError (auth w)\<rparr>)"

section \<open>Worlds and servers of the examples\<close>

text \<open>
  A platform for the examples, none of which holds a number: a literal counts as non-zero
  when its mantissa has a digit other than 0, and is written back as it was read.
\<close>

definition example_platform :: platform where
  "example_platform =
     \<lparr>number_truthy =
        (\<lambda>l. \<exists>c \<in> set (takeWhile (\<lambda>c. c \<noteq> 0x65 \<and> c \<noteq> 0x45) l). 0x31 \<le> c \<and> c \<le> 0x39),
      number_text = (\<lambda>l. l)\<rparr>"

text \<open>The browser on the first visit, the state of the slice there, and both together.\<close>

definition fresh_browser :: browser where
  "fresh_browser = \<lparr>localStorage = Map.empty, requests = []\<rparr>"

definition unauthenticated :: AuthState where
  "unauthenticated =
     \<lparr>user = JNull, accessToken = None, refreshToken = None, isAuthenticated = False,
      loading = False, error = None, loginMessage = None\<rparr>"

definition fresh_world :: world where
  "fresh_world = \<lparr>browser = fresh_browser, auth = unauthenticated\<rparr>"

text \<open>
  The Session Store is empty when none of its three keys is in \<^verbatim>\<open>localStorage\<close>; the
  application is logged out when the store is empty and the state is the unauthenticated
  one.
\<close>

definition session_empty :: "browser \<Rightarrow> bool" where
  "session_empty b \<longleftrightarrow>
     localStorage b (js ''accessToken'') = None \<and> localStorage b (js ''refreshToken'') = None
     \<and> localStorage b (js ''user'') = None"

definition logged_out :: "world \<Rightarrow> bool" where
  "logged_out w \<longleftrightarrow> session_empty (browser w) \<and> auth w = unauthenticated"

text \<open>
  A server that gives every request the same response, and one that cannot be reached.
\<close>

definition answering :: "Response \<Rightarrow> LoginRequest \<Rightarrow> Response option" where
  "answering response credentials = Some response"

definition unreachable_server :: "LoginRequest \<Rightarrow> Response option" where
  "unreachable_server credentials = None"

text \<open>The credentials of the examples.\<close>

definition alice :: LoginRequest where
  "alice = \<lparr>email = js ''a@b.com'', password = js ''secret''\<rparr>"

text \<open>The response of property P6: status 401 with a message and a field error.\<close>

definition invalid_credentials_body :: api_data where
  "invalid_credentials_body =
     \<lparr>data_success = False, data_accessToken = [], data_refreshToken = [],
      data_expiresIn = 0, data_message = js ''Invalid credentials'',
      data_user = JUndefined,
      data_errors = Some [(js ''email'', [js ''not found''])]\<rparr>"

definition invalid_credentials :: Response where
  "invalid_credentials = \<lparr>http_status = 401, body_json = Some invalid_credentials_body\<rparr>"

text \<open>
  The response of scenario A. The token is \<open>header.payload.signature\<close>, the payload
  being the base64 text of
  \<^verbatim>\<open>{"email":"a@b.com","nameid":"42","unique_name":"Alice","role":"Admin"}\<close>;
  \<open>alice_user\<close> is the object this text denotes.
\<close>

definition alice_token :: jstring where
  "alice_token = js ''eyJhbGciOiJIUzI1NiIsInR5cCI6IkpXVCJ9.eyJlbWFpbCI6ImFAYi5jb20iLCJuYW1laWQiOiI0MiIsInVuaXF1ZV9uYW1lIjoiQWxpY2UiLCJyb2xlIjoiQWRtaW4ifQ.c2ln''"

definition alice_user :: jsval where
  "alice_user =
     JObj [(js ''email'', JStr (js ''a@b.com'')), (js ''nameid'', JStr (js ''42'')),
           (js ''unique_name'', JStr (js ''Alice'')), (js ''role'', JStr (js ''Admin''))]"

definition alice_body :: api_data where
  "alice_body =
     \<lparr>data_success = True, data_accessToken = alice_token, data_refreshToken = js ''r1'',
      data_expiresIn = 3600, data_message = js ''ok'', data_user = JUndefined,
      data_errors = None\<rparr>"

definition alice_login :: Response where
  "alice_login = \<lparr>http_status = 200, body_json = Some alice_body\<rparr>"

text \<open>The response of property P4: status 200 with a token that has no dot.\<close>

definition opaque_body :: api_data where
  "opaque_body =
     \<lparr>data_success = True, data_accessToken = js ''opaque-token'', data_refreshToken = js ''r2'',
      data_expiresIn = 3600, data_message = js ''ok'', data_user = JUndefined,
      data_errors = None\<rparr>"

definition opaque_login :: Response where
  "opaque_login = \<lparr>http_status = 200, body_json = Some opaque_body\<rparr>"

text \<open>
  A response whose token carries one claim only: the payload is the base64 text of
  \<^verbatim>\<open>{"email":"a@b.com"}\<close>.
\<close>

definition email_only_token :: jstring where
  "email_only_token = js ''eyJhbGciOiJIUzI1NiIsInR5cCI6IkpXVCJ9.eyJlbWFpbCI6ImFAYi5jb20ifQ.c2ln''"

definition email_only_body :: api_data where
  "email_only_body =
     \<lparr>data_success = True, data_accessToken = email_only_token, data_refreshToken = js ''r3'',
      data_expiresIn = 3600, data_message = js ''ok'', data_user = JUndefined,
      data_errors = None\<rparr>"

definition email_only_login :: Response where
  "email_only_login = \<lparr>http_status = 200, body_json = Some email_only_body\<rparr>"

section \<open>The invariant of the session\<close>

text \<open>
  The storage is consistent when the user key is there only together with the
  access-token key (as on the first visit, when neither is there). A server sends no user
  when no body of its responses has the field \<^verbatim>\<open>user\<close>, which the interface reserves for
  what the client decodes. \<open>user_has_token\<close> is what the reachable worlds keep: consistent
  storage, and in the state no user without an access token.
\<close>

definition store_consistent :: "browser \<Rightarrow> bool" where
  "store_consistent b \<longleftrightarrow>
     (localStorage b (js ''user'') \<noteq> None \<longrightarrow> localStorage b (js ''accessToken'') \<noteq> None)"

definition no_user_field :: "(LoginRequest \<Rightarrow> Response option) \<Rightarrow> bool" where
  "no_user_field fetch \<longleftrightarrow>
     (\<forall>c r d. fetch c = Some r \<longrightarrow> body_json r = Some d \<longrightarrow> data_user d = JUndefined)"

definition user_has_token :: "world \<Rightarrow> bool" where
  "user_has_token w \<longleftrightarrow>
     store_consistent (browser w) \<and> (user (auth w) \<noteq> JNull \<longrightarrow> accessToken (auth w) \<noteq> None)"

section \<open>The values JSON.parse returns, and what is read back of a stored value\<close>

text \<open>
  The parts of a number literal: the integer part (\<open>0\<close>, or digits that do not start
  with \<open>0\<close>), the fraction (nothing, or a point and digits) and the exponent (nothing, or
  \<open>e\<close> or \<open>E\<close>, a sign or none, and digits). \<open>separator_next\<close> holds of the text that can
  follow a value inside the text \<^verbatim>\<open>JSON.stringify\<close> writes: nothing, a comma or a closing
  bracket.
\<close>

definition separator_next :: "jstring \<Rightarrow> bool" where
  "separator_next rest \<longleftrightarrow> rest = [] \<or> hd rest = 0x2C \<or> hd rest = 0x5D \<or> hd rest = 0x7D"

definition int_part :: "jstring \<Rightarrow> bool" where
  "int_part i \<longleftrightarrow> i = [0x30] \<or> (i \<noteq> [] \<and> list_all is_digit i \<and> hd i \<noteq> 0x30)"

definition frac_part :: "jstring \<Rightarrow> bool" where
  "frac_part f \<longleftrightarrow> f = [] \<or> (\<exists>ds. f = 0x2E # ds \<and> ds \<noteq> [] \<and> list_all is_digit ds)"

definition exp_part :: "jstring \<Rightarrow> bool" where
  "exp_part e \<longleftrightarrow> e = [] \<or>
     (\<exists>c ds. (c = 0x65 \<or> c = 0x45) \<and> ds \<noteq> [] \<and> list_all is_digit ds
        \<and> (e = c # ds \<or> e = c # 0x2B # ds \<or> e = c # 0x2D # ds))"

definition no_digit_next :: "jstring \<Rightarrow> bool" where
  "no_digit_next r \<longleftrightarrow> r = [] \<or> \<not> is_digit (hd r)"

text \<open>
  The order \<open>obj_put\<close> keeps the properties of an object in: the array indices first, in
  ascending order, then the other keys; no key twice.
\<close>

definition comes_before :: "jstring \<Rightarrow> jstring \<Rightarrow> bool" where
  "comes_before k k' \<longleftrightarrow>
     (case array_index k' of
        None \<Rightarrow> True
      | Some n' \<Rightarrow> (case array_index k of None \<Rightarrow> False | Some n \<Rightarrow> n \<le> n'))"

definition property_order :: "(jstring \<times> jsval) list \<Rightarrow> bool" where
  "property_order ms \<longleftrightarrow> sorted_wrt comes_before (map fst ms) \<and> distinct (map fst ms)"

text \<open>
  The values \<^verbatim>\<open>JSON.parse\<close> can return: nothing in them is \<^verbatim>\<open>undefined\<close>, every number
  is a literal of the JSON grammar, and the properties of every object are in the order
  above.
\<close>

fun well_formed :: "jsval \<Rightarrow> bool" where
  "well_formed JUndefined = False"
| "well_formed JNull = True"
| "well_formed (JBool b) = True"
| "well_formed (JNum l) = (scan_number l = Some (l, []))"
| "well_formed (JStr s) = True"
| "well_formed (JArr vs) = list_all well_formed vs"
| "well_formed (JObj ms) = (property_order ms \<and> list_all (\<lambda>(k, v). well_formed v) ms)"

text \<open>
  What the platform's \<^verbatim>\<open>JSON.stringify\<close> does with the numbers of a value.
  \<open>numbers_written\<close>: each is written as a number literal or as \<open>null\<close> (the text of a
  number that is not finite). \<open>written_as_read\<close>: each is written as the literal it was
  read from.
\<close>

fun numbers_written :: "platform \<Rightarrow> jsval \<Rightarrow> bool" where
  "numbers_written P (JNum l) =
     (number_text P l = js ''null''
      \<or> scan_number (number_text P l) = Some (number_text P l, []))"
| "numbers_written P (JArr vs) = list_all (numbers_written P) vs"
| "numbers_written P (JObj ms) = list_all (\<lambda>(k, v). numbers_written P v) ms"
| "numbers_written P v = True"

fun written_as_read :: "platform \<Rightarrow> jsval \<Rightarrow> bool" where
  "written_as_read P (JNum l) = (number_text P l = l)"
| "written_as_read P (JArr vs) = list_all (written_as_read P) vs"
| "written_as_read P (JObj ms) = list_all (\<lambda>(k, v). written_as_read P v) ms"
| "written_as_read P v = True"

text \<open>
  What is read back of an object that was stored: \<open>drop_undefined\<close> leaves out its
  properties whose value is \<^verbatim>\<open>undefined\<close>, and \<open>reread\<close> puts for every number in it the
  literal that was written for it, \<open>null\<close> when \<open>null\<close> was written.
\<close>

fun drop_undefined :: "jsval \<Rightarrow> jsval" where
  "drop_undefined (JObj ms) = JObj (filter (\<lambda>(k, v). v \<noteq> JUndefined) ms)"
| "drop_undefined v = v"

fun reread :: "platform \<Rightarrow> jsval \<Rightarrow> jsval" where
  "reread P (JNum l) = (if number_text P l = js ''null'' then JNull else JNum (number_text P l))"
| "reread P (JArr vs) = JArr (map (reread P) vs)"
| "reread P (JObj ms) = JObj (map (\<lambda>(k, v). (k, reread P v)) ms)"
| "reread P v = v"

text \<open>The decoded token carries the claim \<open>k\<close>: reading it gives a value, not \<^verbatim>\<open>undefined\<close>.\<close>

definition carries :: "jsval \<Rightarrow> jstring \<Rightarrow> bool" where
  "carries decodedToken k \<longleftrightarrow>
     (case get_prop decodedToken k of None \<Rightarrow> False | Some v \<Rightarrow> v \<noteq> JUndefined)"

text \<open>
  The text \<^verbatim>\<open>JSON.stringify\<close> writes for a value inside an array (\<open>null\<close> for
  \<^verbatim>\<open>undefined\<close>), and the tokens of that text.
\<close>

definition text_of :: "platform \<Rightarrow> jsval \<Rightarrow> jstring" where
  "text_of P v = (case serialize P v of None \<Rightarrow> js ''null'' | Some t \<Rightarrow> t)"

fun join_tokens :: "token list list \<Rightarrow> token list" where
  "join_tokens [] = []"
| "join_tokens [x] = x"
| "join_tokens (x # y # xs) = x @ TComma # join_tokens (y # xs)"

fun tokens_of :: "jsval \<Rightarrow> token list" where
  "tokens_of JUndefined = []"
| "tokens_of JNull = [TNull]"
| "tokens_of (JBool b) = [if b then TTrue else TFalse]"
| "tokens_of (JNum l) = [TNumber l]"
| "tokens_of (JStr s) = [TString s]"
| "tokens_of (JArr vs) = TLBracket # join_tokens (map tokens_of vs) @ [TRBracket]"
| "tokens_of (JObj ms) =
     TLBrace # join_tokens (map (\<lambda>(k, v). TString k # TColon # tokens_of v) ms) @ [TRBrace]"

text \<open>
  The states of the automaton in which a value may start, and the run of the automaton
  once the value \<open>v\<close> has been read above the stack \<open>st\<close>.
\<close>

definition value_start :: "expect \<times> frame list \<Rightarrow> bool" where
  "value_start q \<longleftrightarrow> fst q = EValue \<or> (fst q = EValueOrEnd \<and> (\<exists>st. snd q = FArr [] # st))"

definition after_value :: "jsval \<Rightarrow> frame list \<Rightarrow> token list \<Rightarrow> jsval option" where
  "after_value v st tks =
     (case complete_value v st of None \<Rightarrow> None | Some q \<Rightarrow> parse_tokens q tks)"

text \<open>
  The invariant of the automaton: the number of every token is a literal, and the values
  held in the frames and in the final state are well formed.
\<close>

fun token_ok :: "token \<Rightarrow> bool" where
  "token_ok (TNumber l) = (scan_number l = Some (l, []))"
| "token_ok tk = True"

fun frame_ok :: "frame \<Rightarrow> bool" where
  "frame_ok (FArr es) = list_all well_formed es"
| "frame_ok (FObj ms) = well_formed (JObj ms)"
| "frame_ok (FMember ms k) = well_formed (JObj ms)"

fun state_ok :: "expect \<times> frame list \<Rightarrow> bool" where
  "state_ok (EDone v, st) = (well_formed v \<and> list_all frame_ok st)"
| "state_ok (e, st) = list_all frame_ok st"

section \<open>split and atob\<close>

lemma split_not_Nil: "split sep s \<noteq> []"
  by (induction s) (auto split: list.splits)

lemma split_no_separator: "sep \<notin> set s \<Longrightarrow> split sep s = [s]"
  by (induction s) auto

lemma split_at_separator: "sep \<notin> set h \<Longrightarrow> split sep (h @ sep # t) = h # split sep t"
  by (induction h) auto

lemma atob_undefined: "atob (js ''undefined'') = None"
  by (simp add: atob_def js_def strip_padding_def is_ascii_whitespace_def)

lemma decodeJWT_no_dot: "0x2E \<notin> set t \<Longrightarrow> decodeJWT t = JNull"
  by (simp add: decodeJWT_def split_no_separator decode_payload_def atob_undefined)

lemma decodeJWT_second_segment:
  assumes "0x2E \<notin> set h" and "0x2E \<notin> set p" and "r = [] \<or> (\<exists>r'. r = 0x2E # r')"
  shows "decodeJWT (h @ 0x2E # p @ r) = decode_payload p"
proof -
  from assms(2,3) have "\<exists>rest. split 0x2E (p @ r) = p # rest"
    by (auto simp: split_no_separator split_at_separator)
  with assms(1) show ?thesis
    by (auto simp: decodeJWT_def split_at_separator)
qed

section \<open>What JSON.stringify writes, JSON.parse reads\<close>

lemma unat_jschar_bound: "unat (c :: jschar) < 65536"
  using unsigned_less [of c, where ?'a = nat] by simp

lemma nibbles:
  "((u div 4096 * 16 + u div 256 mod 16) * 16 + u div 16 mod 16) * 16 + u mod 16 = (u::nat)"
proof -
  have a: "u div 4096 = u div 256 div 16" by (simp add: div_mult2_eq [symmetric])
  have b: "u div 256 = u div 16 div 16" by (simp add: div_mult2_eq [symmetric])
  have "u div 256 div 16 * 16 + u div 256 mod 16 = u div 256" by simp
  moreover have "u div 16 div 16 * 16 + u div 16 mod 16 = u div 16" by simp
  moreover have "u div 16 * 16 + u mod 16 = u" by simp
  ultimately show ?thesis by (simp only: a) (simp only: b)
qed

lemma surrogate_not_control:
  "is_high_surrogate c \<or> is_low_surrogate c \<Longrightarrow> \<not> c < 0x20 \<and> c \<noteq> 0x22 \<and> c \<noteq> 0x5C"
  by (auto simp: is_high_surrogate_def is_low_surrogate_def word_le_nat_alt word_less_nat_alt)

lemma hex_value_hex_digit: "n < 16 \<Longrightarrow> hex_value (hex_digit n) = Some n"
proof -
  assume "n < 16"
  then have "n = 15 \<or> n = 14 \<or> n = 13 \<or> n = 12 \<or> n = 11 \<or> n = 10 \<or> n = 9 \<or> n = 8
    \<or> n = 7 \<or> n = 6 \<or> n = 5 \<or> n = 4 \<or> n = 3 \<or> n = 2 \<or> n = Suc 0 \<or> n = 0"
    by (simp add: lessThan_nat_numeral lessThan_Suc flip: lessThan_iff)
  then show ?thesis
    by (elim disjE) (simp_all add: hex_digit_def hex_value_def)
qed

lemma unicode_escape_value_digits:
  "unicode_escape_value (hex_digit (unat c div 4096)) (hex_digit (unat c div 256 mod 16))
     (hex_digit (unat c div 16 mod 16)) (hex_digit (unat c mod 16)) = Some c"
proof -
  have "unat c div 4096 < 16" using unat_jschar_bound [of c] by simp
  then have h: "hex_value (hex_digit (unat c div 4096)) = Some (unat c div 4096)"
    "hex_value (hex_digit (unat c div 256 mod 16)) = Some (unat c div 256 mod 16)"
    "hex_value (hex_digit (unat c div 16 mod 16)) = Some (unat c div 16 mod 16)"
    "hex_value (hex_digit (unat c mod 16)) = Some (unat c mod 16)"
    by (simp_all add: hex_value_hex_digit)
  have "(of_nat (unat c) :: jschar) = c" by simp
  then show ?thesis
    by (simp only: unicode_escape_value_def h prod.case option.case nibbles)
qed

lemma scan_string_literal:
  "\<not> c < 0x20 \<Longrightarrow> c \<noteq> 0x22 \<Longrightarrow> c \<noteq> 0x5C \<Longrightarrow> t \<noteq> [] \<Longrightarrow>
   scan_string (c # t) = map_option (\<lambda>(v, r). (c # v, r)) (scan_string t)"
  by (cases t) simp_all

lemma scan_string_unicode_escape:
  "scan_string (unicode_escape c @ t) = map_option (\<lambda>(v, r). (c # v, r)) (scan_string t)"
  by (simp add: unicode_escape_def unicode_escape_value_digits)

lemma scan_string_quote_unit:
  assumes t: "t \<noteq> []"
  shows "scan_string (quote_unit c @ t) = map_option (\<lambda>(v, r). (c # v, r)) (scan_string t)"
proof (cases "c = 0x8 \<or> c = 0x9 \<or> c = 0xA \<or> c = 0xC \<or> c = 0xD \<or> c = 0x22 \<or> c = 0x5C")
  case True
  then show ?thesis
    by (elim disjE) (simp_all add: quote_unit_def simple_escape_def)
next
  case False
  show ?thesis
  proof (cases "c < 0x20 \<or> is_high_surrogate c \<or> is_low_surrogate c")
    case True
    with False have "quote_unit c = unicode_escape c" by (simp add: quote_unit_def)
    then show ?thesis by (simp only: scan_string_unicode_escape)
  next
    case plain: False
    with False have "quote_unit c = [c]" by (simp add: quote_unit_def)
    with False plain t show ?thesis by (simp add: scan_string_literal del: scan_string.simps)
  qed
qed

lemma scan_string_quote_chars: "scan_string (quote_chars s @ 0x22 # rest) = Some (s, rest)"
proof (induction s rule: quote_chars.induct)
  case 1
  show ?case by (cases rest) simp_all
next
  case (2 c)
  have "scan_string (0x22 # rest) = Some ([], rest)" by (cases rest) simp_all
  then show ?case by (simp add: scan_string_quote_unit del: scan_string.simps)
next
  case (3 c d cs)
  show ?case
  proof (cases "is_high_surrogate c \<and> is_low_surrogate d")
    case True
    then have c: "\<not> c < 0x20" "c \<noteq> 0x22" "c \<noteq> 0x5C" and d: "\<not> d < 0x20" "d \<noteq> 0x22" "d \<noteq> 0x5C"
      using surrogate_not_control [of c] surrogate_not_control [of d] by simp_all
    from True "3.IH"(1) have "scan_string (quote_chars cs @ 0x22 # rest) = Some (cs, rest)" by simp
    with c d True show ?thesis
      by (simp add: scan_string_literal del: scan_string.simps)
  next
    case False
    with "3.IH"(2) have "scan_string (quote_chars (d # cs) @ 0x22 # rest) = Some (d # cs, rest)"
      by simp
    moreover have "quote_chars (d # cs) @ 0x22 # rest \<noteq> []" by simp
    moreover from False have "quote_chars (c # d # cs) = quote_unit c @ quote_chars (d # cs)"
      by auto
    ultimately show ?thesis
      by (simp add: scan_string_quote_unit del: scan_string.simps quote_chars.simps)
  qed
qed

lemma tokenize_quote:
  "tokenize (quote s @ rest) = map_option ((#) (TString s)) (tokenize rest)"
  by (simp add: quote_def is_json_whitespace_def next_token_def scan_string_quote_chars
      del: scan_string.simps)

lemma JSON_stringify_user:
  "JSON_stringify P (JObj [(js ''email'', JStr e), (js ''nameid'', JStr n),
                           (js ''unique_name'', JStr u), (js ''role'', JStr r)]) =
   Some (js ''{'' @ quote (js ''email'') @ js '':'' @ quote e @ js '','' @
         quote (js ''nameid'') @ js '':'' @ quote n @ js '','' @
         quote (js ''unique_name'') @ js '':'' @ quote u @ js '','' @
         quote (js ''role'') @ js '':'' @ quote r @ js ''}'')"
  by (simp add: JSON_stringify_def)

section \<open>Number literals\<close>

lemma is_digit_cases:
  "is_digit c \<Longrightarrow> c \<noteq> 0x2C \<and> c \<noteq> 0x5D \<and> c \<noteq> 0x7D \<and> c \<noteq> 0x2E \<and> c \<noteq> 0x65 \<and> c \<noteq> 0x45
     \<and> c \<noteq> 0x2D \<and> c \<noteq> 0x2B \<and> c \<noteq> 0x7B \<and> c \<noteq> 0x5B \<and> c \<noteq> 0x3A \<and> c \<noteq> 0x22
     \<and> c \<noteq> 0x74 \<and> c \<noteq> 0x66 \<and> c \<noteq> 0x6E \<and> \<not> is_json_whitespace c"
  by (auto simp: is_digit_def is_json_whitespace_def word_le_nat_alt)

lemma scan_digits_Some:
  "scan_digits s = Some (ds, t) \<Longrightarrow> ds \<noteq> [] \<and> list_all is_digit ds \<and> s = ds @ t"
  by (auto simp: scan_digits_def list_all_iff split: if_splits dest: set_takeWhileD)

lemma scan_digits_append:
  assumes "ds \<noteq> []" and "list_all is_digit ds" and "r = [] \<or> \<not> is_digit (hd r)"
  shows "scan_digits (ds @ r) = Some (ds, r)"
proof -
  from assms(2) have a: "\<forall>x \<in> set ds. is_digit x" by (simp add: list_all_iff)
  from assms(3) have t: "takeWhile is_digit r = []" and d: "dropWhile is_digit r = r"
    by (cases r; auto)+
  from a t d assms(1) show ?thesis
    by (simp add: scan_digits_def takeWhile_append2 dropWhile_append2)
qed

lemma scan_digits_all:
  "ds \<noteq> [] \<Longrightarrow> list_all is_digit ds \<Longrightarrow> scan_digits ds = Some (ds, [])"
  using scan_digits_append [of ds "[]"] by simp

lemma scan_int_Some: "scan_int s = Some (i, t) \<Longrightarrow> int_part i \<and> s = i @ t"
proof (cases s)
  case Nil
  assume "scan_int s = Some (i, t)"
  with Nil show ?thesis by (simp add: scan_int_def)
next
  case (Cons a list)
  assume *: "scan_int s = Some (i, t)"
  show ?thesis
  proof (cases "a = 0x30")
    case True
    with * Cons show ?thesis by (auto simp: scan_int_def int_part_def)
  next
    case False
    with * Cons have "scan_digits s = Some (i, t)" by (simp add: scan_int_def)
    from scan_digits_Some [OF this] have i: "i \<noteq> []" "list_all is_digit i" "s = i @ t" by simp_all
    from i(1,3) Cons have "hd i = a" by (cases i) auto
    with False i show ?thesis by (simp add: int_part_def)
  qed
qed

lemma scan_frac_Some:
  "scan_frac s = Some (f, t) \<Longrightarrow> frac_part f \<and> s = f @ t \<and> (f = [] \<longrightarrow> s = [] \<or> hd s \<noteq> 0x2E)"
proof (cases s)
  case Nil
  assume "scan_frac s = Some (f, t)"
  with Nil show ?thesis by (simp add: scan_frac_def frac_part_def)
next
  case (Cons a list)
  assume *: "scan_frac s = Some (f, t)"
  show ?thesis
  proof (cases "a = 0x2E")
    case True
    with * Cons obtain ds where ds: "scan_digits list = Some (ds, t)" and f: "f = a # ds"
      by (auto simp: scan_frac_def)
    from scan_digits_Some [OF ds] f True Cons show ?thesis
      by (simp add: frac_part_def)
  next
    case False
    with * Cons show ?thesis by (auto simp: scan_frac_def frac_part_def)
  qed
qed

lemma scan_exp_Some:
  "scan_exp s = Some (e, t) \<Longrightarrow>
   exp_part e \<and> s = e @ t \<and> (e = [] \<longrightarrow> s = [] \<or> (hd s \<noteq> 0x65 \<and> hd s \<noteq> 0x45))"
proof (cases s)
  case Nil
  assume "scan_exp s = Some (e, t)"
  with Nil show ?thesis by (simp add: scan_exp_def exp_part_def)
next
  case (Cons c r)
  assume *: "scan_exp s = Some (e, t)"
  show ?thesis
  proof (cases "c = 0x65 \<or> c = 0x45")
    case False
    with * Cons show ?thesis by (auto simp: scan_exp_def exp_part_def)
  next
    case True
    show ?thesis
    proof (cases r)
      case Nil
      with * Cons True show ?thesis by (auto simp: scan_exp_def)
    next
      case (Cons g r')
      show ?thesis
      proof (cases "g = 0x2B \<or> g = 0x2D")
        case sign: True
        with * \<open>s = c # r\<close> Cons True obtain ds where
          ds: "scan_digits r' = Some (ds, t)" and e: "e = c # g # ds"
          by (auto simp: scan_exp_def)
        from scan_digits_Some [OF ds] have "ds \<noteq> []" "list_all is_digit ds" "r' = ds @ t"
          by simp_all
        with e sign True \<open>s = c # r\<close> Cons show ?thesis
          unfolding exp_part_def by auto
      next
        case nosign: False
        with * \<open>s = c # r\<close> Cons True obtain ds where
          ds: "scan_digits r = Some (ds, t)" and e: "e = c # ds"
          by (auto simp: scan_exp_def)
        from scan_digits_Some [OF ds] have "ds \<noteq> []" "list_all is_digit ds" "r = ds @ t"
          by simp_all
        with e True \<open>s = c # r\<close> show ?thesis
          unfolding exp_part_def by auto
      qed
    qed
  qed
qed

lemma scan_int_append:
  assumes "int_part i" and "no_digit_next r"
  shows "scan_int (i @ r) = Some (i, r)"
proof (cases "i = [0x30]")
  case True
  then show ?thesis by (simp add: scan_int_def)
next
  case False
  with assms(1) have i: "i \<noteq> []" "list_all is_digit i" "hd i \<noteq> 0x30"
    by (simp_all add: int_part_def)
  from i(1) obtain a l where l: "i = a # l" by (cases i) auto
  from assms(2) have "scan_digits (i @ r) = Some (i, r)"
    by (intro scan_digits_append i) (simp add: no_digit_next_def)
  with l i(3) show ?thesis by (simp add: scan_int_def)
qed

lemma scan_frac_append:
  assumes "frac_part f" and "no_digit_next r" and "f = [] \<longrightarrow> r = [] \<or> hd r \<noteq> 0x2E"
  shows "scan_frac (f @ r) = Some (f, r)"
proof (cases "f = []")
  case True
  with assms(3) show ?thesis by (cases r) (simp_all add: scan_frac_def)
next
  case False
  with assms(1) obtain ds where ds: "f = 0x2E # ds" "ds \<noteq> []" "list_all is_digit ds"
    by (auto simp: frac_part_def)
  from assms(2) have "scan_digits (ds @ r) = Some (ds, r)"
    by (intro scan_digits_append ds) (simp add: no_digit_next_def)
  with ds(1) show ?thesis by (simp add: scan_frac_def)
qed

lemma scan_exp_append:
  assumes "exp_part e" and "no_digit_next r"
    and "e = [] \<longrightarrow> r = [] \<or> (hd r \<noteq> 0x65 \<and> hd r \<noteq> 0x45)"
  shows "scan_exp (e @ r) = Some (e, r)"
proof (cases "e = []")
  case True
  with assms(3) show ?thesis by (cases r) (auto simp: scan_exp_def)
next
  case False
  with assms(1) obtain c ds where c: "c = 0x65 \<or> c = 0x45" and ds: "ds \<noteq> []" "list_all is_digit ds"
    and e: "e = c # ds \<or> e = c # 0x2B # ds \<or> e = c # 0x2D # ds"
    by (auto simp: exp_part_def)
  from assms(2) have sd: "scan_digits (ds @ r) = Some (ds, r)"
    by (intro scan_digits_append ds) (simp add: no_digit_next_def)
  from ds obtain d ds' where d: "ds = d # ds'" "is_digit d" by (cases ds) auto
  from is_digit_cases [OF d(2)] have nd: "d \<noteq> 0x2B" "d \<noteq> 0x2D" by simp_all
  from e show ?thesis
  proof (elim disjE)
    assume "e = c # ds"
    with c sd d(1) nd show ?thesis by (auto simp: scan_exp_def)
  next
    assume "e = c # 0x2B # ds"
    with c sd show ?thesis by (auto simp: scan_exp_def)
  next
    assume "e = c # 0x2D # ds"
    with c sd show ?thesis by (auto simp: scan_exp_def)
  qed
qed

lemma separator_next_facts:
  assumes "separator_next rest"
  shows "no_digit_next rest" and "rest = [] \<or> hd rest \<noteq> 0x2E"
    and "rest = [] \<or> (hd rest \<noteq> 0x65 \<and> hd rest \<noteq> 0x45)"
  using assms is_digit_cases [of "hd rest"]
  by (auto simp: separator_next_def no_digit_next_def)

lemma exp_part_next:
  assumes "exp_part e" and "separator_next rest"
  shows "no_digit_next (e @ rest)" and "e @ rest = [] \<or> hd (e @ rest) \<noteq> 0x2E"
proof -
  show "no_digit_next (e @ rest)"
  proof (cases "e = []")
    case True
    with separator_next_facts(1) [OF assms(2)] show ?thesis by simp
  next
    case False
    with assms(1) have "hd e = 0x65 \<or> hd e = 0x45" by (auto simp: exp_part_def)
    with False is_digit_cases [of "hd e"] show ?thesis by (auto simp: no_digit_next_def)
  qed
  show "e @ rest = [] \<or> hd (e @ rest) \<noteq> 0x2E"
  proof (cases "e = []")
    case True
    with separator_next_facts(2) [OF assms(2)] show ?thesis by simp
  next
    case False
    with assms(1) have "hd e = 0x65 \<or> hd e = 0x45" by (auto simp: exp_part_def)
    with False show ?thesis by auto
  qed
qed

lemma frac_part_next:
  assumes "frac_part f" and "exp_part e" and "separator_next rest"
  shows "no_digit_next (f @ e @ rest)"
proof (cases "f = []")
  case True
  with exp_part_next(1) [OF assms(2,3)] show ?thesis by simp
next
  case False
  with assms(1) have "hd f = 0x2E" by (auto simp: frac_part_def)
  with False is_digit_cases [of "hd f"] show ?thesis by (auto simp: no_digit_next_def)
qed

lemma int_part_first: "int_part i \<Longrightarrow> i \<noteq> [] \<and> is_digit (hd i)"
  by (cases i) (auto simp: int_part_def is_digit_def)

lemma scan_number_parts:
  assumes "scan_number s = Some (l, t)"
  shows "\<exists>sign i f e. l = sign @ i @ f @ e \<and> (sign = [] \<or> sign = [0x2D])
           \<and> int_part i \<and> frac_part f \<and> exp_part e"
proof -
  obtain sign s0 where s0: "(case s of [] \<Rightarrow> ([], s) | c # r \<Rightarrow> if c = 0x2D then ([c], r) else ([], s))
      = (sign, s0)"
    by (cases "case s of [] \<Rightarrow> ([], s) | c # r \<Rightarrow> if c = 0x2D then ([c], r) else ([], s)") auto
  then have sign: "sign = [] \<or> sign = [0x2D]" by (auto split: list.splits if_splits)
  from assms s0 obtain i s1 f s2 e where i: "scan_int s0 = Some (i, s1)"
    and f: "scan_frac s1 = Some (f, s2)" and e: "scan_exp s2 = Some (e, t)"
    and l: "l = sign @ i @ f @ e"
    by (auto simp: scan_number_def split: option.splits)
  from scan_int_Some [OF i] scan_frac_Some [OF f] scan_exp_Some [OF e] sign l
  show ?thesis by blast
qed

lemma scan_number_of_parts:
  assumes "sign = [] \<or> sign = [0x2D]" and "int_part i" and "frac_part f" and "exp_part e"
    and "separator_next rest"
  shows "scan_number (sign @ i @ f @ e @ rest) = Some (sign @ i @ f @ e, rest)"
proof -
  have 1: "scan_int (i @ f @ e @ rest) = Some (i, f @ e @ rest)"
    by (rule scan_int_append [OF assms(2) frac_part_next [OF assms(3,4,5)]])
  have 2: "scan_frac (f @ e @ rest) = Some (f, e @ rest)"
    using exp_part_next [OF assms(4,5)] by (intro scan_frac_append assms(3)) simp_all
  have 3: "scan_exp (e @ rest) = Some (e, rest)"
    using separator_next_facts [OF assms(5)] by (intro scan_exp_append assms(4)) simp_all
  from int_part_first [OF assms(2)] obtain a i' where a: "i = a # i'" "is_digit a"
    by (cases i) auto
  from is_digit_cases [OF a(2)] have "a \<noteq> 0x2D" by simp
  with assms(1) a(1) 1 2 3 show ?thesis
    by (auto simp: scan_number_def)
qed

lemma scan_number_again:
  assumes "scan_number s = Some (l, t)" and "separator_next rest"
  shows "scan_number (l @ rest) = Some (l, rest)"
proof -
  from scan_number_parts [OF assms(1)] obtain sign i f e where
    "l = sign @ i @ f @ e" "sign = [] \<or> sign = [0x2D]" "int_part i" "frac_part f" "exp_part e"
    by blast
  with scan_number_of_parts [OF _ _ _ _ assms(2), of sign i f e] show ?thesis by simp
qed

lemma scan_number_first:
  assumes "scan_number s = Some (l, t)"
  shows "l \<noteq> [] \<and> (hd l = 0x2D \<or> is_digit (hd l))"
proof -
  from scan_number_parts [OF assms(1)] obtain sign i f e where
    l: "l = sign @ i @ f @ e" and s: "sign = [] \<or> sign = [0x2D]" and i: "int_part i"
    by blast
  from int_part_first [OF i] l s show ?thesis by auto
qed

lemma tokenize_number:
  assumes "scan_number l = Some (l, [])" and "separator_next rest"
  shows "tokenize (l @ rest) = map_option ((#) (TNumber l)) (tokenize rest)"
proof -
  from scan_number_first [OF assms(1)] obtain c l' where l: "l = c # l'"
    and c: "c = 0x2D \<or> is_digit c" by (cases l) auto
  from scan_number_again [OF assms] have s: "scan_number (c # l' @ rest) = Some (l, rest)"
    using l by simp
  from c have "next_token (c # l' @ rest) = Some (TNumber l, rest) \<and> \<not> is_json_whitespace c"
  proof
    assume "c = 0x2D"
    with s show ?thesis by (simp add: next_token_def is_json_whitespace_def)
  next
    assume "is_digit c"
    with s is_digit_cases [OF this] show ?thesis by (simp add: next_token_def)
  qed
  with l show ?thesis by simp
qed

section \<open>The text of a value and its tokens\<close>

lemma serialize_None: "serialize P v = None \<longleftrightarrow> v = JUndefined"
  by (cases v) simp_all

lemma tokenize_punctuation:
  "tokenize (0x7B # s) = map_option ((#) TLBrace) (tokenize s)"
  "tokenize (0x7D # s) = map_option ((#) TRBrace) (tokenize s)"
  "tokenize (0x5B # s) = map_option ((#) TLBracket) (tokenize s)"
  "tokenize (0x5D # s) = map_option ((#) TRBracket) (tokenize s)"
  "tokenize (0x2C # s) = map_option ((#) TComma) (tokenize s)"
  "tokenize (0x3A # s) = map_option ((#) TColon) (tokenize s)"
  by (simp_all add: is_json_whitespace_def next_token_def)

lemma tokenize_names:
  "tokenize (js ''null'' @ s) = map_option ((#) TNull) (tokenize s)"
  "tokenize (js ''true'' @ s) = map_option ((#) TTrue) (tokenize s)"
  "tokenize (js ''false'' @ s) = map_option ((#) TFalse) (tokenize s)"
  by (simp_all add: js_def is_json_whitespace_def next_token_def strip_prefix_def is_digit_def)

lemma js_punctuation:
  "js ''{'' = [0x7B]" "js ''}'' = [0x7D]" "js ''['' = [0x5B]" "js '']'' = [0x5D]"
  "js '','' = [0x2C]" "js '':'' = [0x3A]"
  by (simp_all add: js_def)

lemma join_Cons: "join sep (x # xs) = x @ (if xs = [] then [] else sep @ join sep xs)"
  by (cases xs) simp_all

lemma join_tokens_Cons:
  "join_tokens (x # xs) = x @ (if xs = [] then [] else TComma # join_tokens xs)"
  by (cases xs) simp_all

lemma serialize_text_of: "v \<noteq> JUndefined \<Longrightarrow> serialize P v = Some (text_of P v)"
  by (cases v) (simp_all add: text_of_def)

lemma text_of_simps:
  "text_of P JNull = js ''null''"
  "text_of P (JBool b) = (if b then js ''true'' else js ''false'')"
  "text_of P (JNum l) = number_text P l"
  "text_of P (JStr s) = quote s"
  "text_of P (JArr vs) = 0x5B # join [0x2C] (map (text_of P) vs) @ [0x5D]"
  by (simp_all add: text_of_def js_punctuation cong: map_cong)

lemma members_text:
  "list_all (\<lambda>(k, v). v \<noteq> JUndefined) ms \<Longrightarrow>
   concat (map (\<lambda>(k, v). case serialize P v of None \<Rightarrow> [] | Some t \<Rightarrow> [quote k @ js '':'' @ t]) ms)
   = map (\<lambda>(k, v). quote k @ 0x3A # text_of P v) ms"
  by (induction ms) (auto simp: serialize_text_of js_punctuation)

lemma text_of_object:
  "list_all (\<lambda>(k, v). v \<noteq> JUndefined) ms \<Longrightarrow>
   text_of P (JObj ms) = 0x7B # join [0x2C] (map (\<lambda>(k, v). quote k @ 0x3A # text_of P v) ms) @ [0x7D]"
  by (simp add: text_of_def members_text js_punctuation)

lemma well_formed_defined: "well_formed v \<Longrightarrow> v \<noteq> JUndefined"
  by auto

lemma separator_next_simps:
  "separator_next (0x2C # s)" "separator_next (0x5D # s)" "separator_next (0x7D # s)"
  "separator_next []"
  by (simp_all add: separator_next_def)

lemma tokenize_elements:
  assumes "\<And>v rest. v \<in> set vs \<Longrightarrow> separator_next rest \<Longrightarrow>
      tokenize (text_of P v @ rest) = map_option ((@) (tokens_of v)) (tokenize rest)"
  shows "tokenize (join [0x2C] (map (text_of P) vs) @ 0x5D # rest)
    = map_option ((@) (join_tokens (map tokens_of vs) @ [TRBracket])) (tokenize rest)"
  using assms
proof (induction vs)
  case Nil
  show ?case by (cases "tokenize rest") (simp_all add: tokenize_punctuation del: tokenize.simps(2))
next
  case (Cons v vs)
  show ?case
  proof (cases "vs = []")
    case True
    with Cons.prems [of v "0x5D # rest"] show ?thesis
      by (cases "tokenize rest") (simp_all add: tokenize_punctuation separator_next_simps del: tokenize.simps(2))
  next
    case False
    have "tokenize (join [0x2C] (map (text_of P) vs) @ 0x5D # rest)
        = map_option ((@) (join_tokens (map tokens_of vs) @ [TRBracket])) (tokenize rest)"
      by (rule Cons.IH, rule Cons.prems) simp_all
    with False Cons.prems [of v "0x2C # join [0x2C] (map (text_of P) vs) @ 0x5D # rest"]
    show ?thesis
      by (cases "tokenize rest")
         (simp_all add: join_Cons join_tokens_Cons tokenize_punctuation separator_next_simps del: tokenize.simps(2))
  qed
qed

lemma tokenize_members:
  assumes "\<And>k v rest. (k, v) \<in> set ms \<Longrightarrow> separator_next rest \<Longrightarrow>
      tokenize (text_of P v @ rest) = map_option ((@) (tokens_of v)) (tokenize rest)"
  shows "tokenize (join [0x2C] (map (\<lambda>(k, v). quote k @ 0x3A # text_of P v) ms) @ 0x7D # rest)
    = map_option ((@) (join_tokens (map (\<lambda>(k, v). TString k # TColon # tokens_of v) ms)
                        @ [TRBrace])) (tokenize rest)"
  using assms
proof (induction ms)
  case Nil
  show ?case by (cases "tokenize rest") (simp_all add: tokenize_punctuation del: tokenize.simps(2))
next
  case (Cons m ms)
  obtain k v where m: "m = (k, v)" by (cases m)
  show ?case
  proof (cases "ms = []")
    case True
    with m Cons.prems [of k v "0x7D # rest"] show ?thesis
      by (cases "tokenize rest")
         (simp_all add: tokenize_punctuation tokenize_quote separator_next_simps del: tokenize.simps(2))
  next
    case False
    have "tokenize (join [0x2C] (map (\<lambda>(k, v). quote k @ 0x3A # text_of P v) ms) @ 0x7D # rest)
        = map_option ((@) (join_tokens (map (\<lambda>(k, v). TString k # TColon # tokens_of v) ms)
                        @ [TRBrace])) (tokenize rest)"
    proof (rule Cons.IH)
      fix k' v' r assume "(k', v') \<in> set ms" and "separator_next r"
      then show "tokenize (text_of P v' @ r) = map_option ((@) (tokens_of v')) (tokenize r)"
        using Cons.prems [of k' v' r] by simp
    qed
    with False m
      Cons.prems [of k v "0x2C # join [0x2C] (map (\<lambda>(k, v). quote k @ 0x3A # text_of P v) ms)
                            @ 0x7D # rest"]
    show ?thesis
      by (cases "tokenize rest")
         (simp_all add: join_Cons join_tokens_Cons tokenize_punctuation tokenize_quote
            separator_next_simps del: tokenize.simps(2))
  qed
qed

lemma tokenize_text_of:
  "well_formed v \<Longrightarrow> written_as_read P v \<Longrightarrow> separator_next rest \<Longrightarrow>
   tokenize (text_of P v @ rest) = map_option ((@) (tokens_of v)) (tokenize rest)"
proof (induction v arbitrary: rest)
  case JUndefined
  then show ?case by simp
next
  case JNull
  show ?case by (cases "tokenize rest") (simp_all add: text_of_simps tokenize_names del: tokenize.simps(2))
next
  case (JBool b)
  show ?case by (cases "tokenize rest") (simp_all add: text_of_simps tokenize_names del: tokenize.simps(2))
next
  case (JNum l)
  then show ?case
    by (cases "tokenize rest") (simp_all add: text_of_simps tokenize_number del: tokenize.simps(2))
next
  case (JStr s)
  show ?case by (cases "tokenize rest") (simp_all add: text_of_simps tokenize_quote del: tokenize.simps(2))
next
  case (JArr vs)
  have "tokenize (join [0x2C] (map (text_of P) vs) @ 0x5D # rest)
    = map_option ((@) (join_tokens (map tokens_of vs) @ [TRBracket])) (tokenize rest)"
  proof (rule tokenize_elements)
    fix v r assume "v \<in> set vs" and "separator_next r"
    with JArr show "tokenize (text_of P v @ r) = map_option ((@) (tokens_of v)) (tokenize r)"
      by (simp add: list_all_iff)
  qed
  then show ?case
    by (cases "tokenize rest") (simp_all add: text_of_simps tokenize_punctuation del: tokenize.simps(2))
next
  case (JObj ms)
  from JObj.prems(1) have d: "list_all (\<lambda>(k, v). v \<noteq> JUndefined) ms"
    by (auto simp: list_all_iff)
  have "tokenize (join [0x2C] (map (\<lambda>(k, v). quote k @ 0x3A # text_of P v) ms) @ 0x7D # rest)
    = map_option ((@) (join_tokens (map (\<lambda>(k, v). TString k # TColon # tokens_of v) ms)
                        @ [TRBrace])) (tokenize rest)"
  proof (rule tokenize_members)
    fix k v r assume "(k, v) \<in> set ms" and "separator_next r"
    with JObj.IH [of "(k, v)" v r] JObj.prems
    show "tokenize (text_of P v @ r) = map_option ((@) (tokens_of v)) (tokenize r)"
      by (auto simp: list_all_iff)
  qed
  then show ?case
    by (cases "tokenize rest") (simp_all add: text_of_object [OF d] tokenize_punctuation del: tokenize.simps(2))
qed

section \<open>The order of the properties of an object\<close>

lemma replace_value_keys: "map fst (replace_value k v ms) = map fst ms"
  by (induction ms) auto

lemma replace_value_values:
  "(k', v') \<in> set (replace_value k v ms) \<Longrightarrow> v' = v \<or> (k', v') \<in> set ms"
  by (induction ms) (auto split: if_splits)

lemma insert_index_set: "set (insert_index n k v ms) = insert (k, v) (set ms)"
  by (induction ms) (auto split: option.splits if_splits)

lemma insert_index_sorted:
  assumes "sorted_wrt comes_before (map fst ms)" and "array_index k = Some n"
  shows "sorted_wrt comes_before (map fst (insert_index n k v ms))"
  using assms(1)
proof (induction ms)
  case Nil
  show ?case by simp
next
  case (Cons m ms)
  obtain k' v' where m: "m = (k', v')" by (cases m)
  from Cons.prems m have later: "\<forall>x \<in> set ms. comes_before k' (fst x)"
    and s: "sorted_wrt comes_before (map fst ms)" by auto
  show ?case
  proof (cases "array_index k'")
    case None
    with later have "\<forall>x \<in> set ms. array_index (fst x) = None"
      by (auto simp: comes_before_def split: option.splits)
    with None m Cons.prems show ?thesis
      by (auto simp: comes_before_def)
  next
    case (Some n')
    show ?thesis
    proof (cases "n < n'")
      case True
      with later Some assms(2) have "\<forall>x \<in> set ms. comes_before k (fst x)"
        by (auto simp: comes_before_def split: option.splits)
      with True Some m Cons.prems assms(2) show ?thesis
        by (auto simp: comes_before_def)
    next
      case False
      with Some assms(2) have "comes_before k' k" by (simp add: comes_before_def)
      with False Some m later Cons.IH [OF s] show ?thesis
        by (auto simp: insert_index_set)
    qed
  qed
qed

lemma obj_put_property_order:
  assumes "property_order ms"
  shows "property_order (obj_put k v ms)"
proof (cases "k \<in> fst ` set ms")
  case True
  with assms show ?thesis
    by (simp add: obj_put_def property_order_def replace_value_keys)
next
  case new: False
  show ?thesis
  proof (cases "array_index k")
    case None
    with new assms show ?thesis
      by (auto simp: obj_put_def property_order_def sorted_wrt_append comes_before_def)
  next
    case (Some n)
    from new have "distinct (map fst ms) \<Longrightarrow> distinct (map fst (insert_index n k v ms))"
      by (induction ms) (auto simp: insert_index_set image_iff split: option.splits)
    with new Some assms insert_index_sorted [of ms k n v] show ?thesis
      by (simp add: obj_put_def property_order_def)
  qed
qed

lemma obj_put_values:
  "(k', v') \<in> set (obj_put k v ms) \<Longrightarrow> v' = v \<or> (k', v') \<in> set ms"
  by (auto simp: obj_put_def insert_index_set split: if_splits option.splits
      dest: replace_value_values)

lemma insert_index_last:
  "\<forall>x \<in> set ms. comes_before (fst x) k \<Longrightarrow> array_index k = Some n \<Longrightarrow>
   insert_index n k v ms = ms @ [(k, v)]"
  by (induction ms) (auto simp: comes_before_def split: option.splits)

lemma obj_put_last:
  assumes "property_order (acc @ [(k, v)])"
  shows "obj_put k v acc = acc @ [(k, v)]"
proof -
  from assms have new: "k \<notin> fst ` set acc" and b: "\<forall>x \<in> set acc. comes_before (fst x) k"
    by (auto simp: property_order_def sorted_wrt_append)
  show ?thesis
  proof (cases "array_index k")
    case None
    with new show ?thesis by (simp add: obj_put_def)
  next
    case (Some n)
    with new insert_index_last [OF b Some] show ?thesis by (simp add: obj_put_def)
  qed
qed

lemma property_order_prefix: "property_order (xs @ ys) \<Longrightarrow> property_order xs"
  by (auto simp: property_order_def sorted_wrt_append)

lemma rebuild_members:
  "property_order (acc @ ms) \<Longrightarrow> foldl (\<lambda>a (k, v). obj_put k v a) acc ms = acc @ ms"
proof (induction ms arbitrary: acc)
  case Nil
  show ?case by simp
next
  case (Cons m ms)
  obtain k v where m: "m = (k, v)" by (cases m)
  from Cons.prems m have "property_order ((acc @ [(k, v)]) @ ms)" by simp
  from Cons.IH [OF this] obj_put_last [OF property_order_prefix [OF this]] m
  show ?case by simp
qed

section \<open>Reading the tokens of a value\<close>

lemma parse_step_value_start:
  "value_start q \<Longrightarrow> tk \<noteq> TRBracket \<Longrightarrow> parse_step q tk = begin_value tk (snd q)"
  by (cases q; cases tk) (auto simp: value_start_def)

lemma value_start_simps:
  "value_start (EValue, st)" "value_start (EValueOrEnd, FArr [] # st)"
  by (simp_all add: value_start_def)

lemma parse_tokens_Cons:
  "parse_tokens q (tk # tks) =
     (case parse_step q tk of None \<Rightarrow> None | Some q' \<Rightarrow> parse_tokens q' tks)"
  by simp

lemma parse_elements:
  assumes "\<And>v q tks. v \<in> set vs \<Longrightarrow> value_start q \<Longrightarrow>
      parse_tokens q (tokens_of v @ tks) = after_value v (snd q) tks"
    and "vs \<noteq> []" and "value_start q" and "snd q = FArr es # st"
  shows "parse_tokens q (join_tokens (map tokens_of vs) @ TRBracket # tks)
    = after_value (JArr (rev es @ vs)) st tks"
  using assms
proof (induction vs arbitrary: q es)
  case Nil
  then show ?case by simp
next
  case (Cons v vs)
  have v: "parse_tokens q (tokens_of v @ ts) = parse_tokens (ESeparator, FArr (v # es) # st) ts"
    for ts
    using Cons.prems(1) [of v q ts] Cons.prems(3,4) by (simp add: after_value_def)
  show ?case
  proof (cases "vs = []")
    case True
    with v show ?thesis
      by (simp add: parse_tokens_Cons after_value_def)
  next
    case False
    have "parse_tokens (EValue, FArr (v # es) # st)
            (join_tokens (map tokens_of vs) @ TRBracket # tks)
          = after_value (JArr (rev (v # es) @ vs)) st tks"
    proof (rule Cons.IH [OF _ False])
      fix v' q' tks' assume "v' \<in> set vs" and "value_start q'"
      then show "parse_tokens q' (tokens_of v' @ tks') = after_value v' (snd q') tks'"
        using Cons.prems(1) [of v' q' tks'] by simp
    qed (simp_all add: value_start_simps)
    with False v show ?thesis
      by (simp add: join_tokens_Cons parse_tokens_Cons)
  qed
qed

lemma parse_members:
  assumes "\<And>k v q tks. (k, v) \<in> set ms \<Longrightarrow> value_start q \<Longrightarrow>
      parse_tokens q (tokens_of v @ tks) = after_value v (snd q) tks"
    and "ms \<noteq> []" and "e = EKeyOrEnd \<or> e = EKey"
  shows "parse_tokens (e, FObj acc # st)
           (join_tokens (map (\<lambda>(k, v). TString k # TColon # tokens_of v) ms) @ TRBrace # tks)
    = after_value (JObj (foldl (\<lambda>a (k, v). obj_put k v a) acc ms)) st tks"
  using assms
proof (induction ms arbitrary: e acc)
  case Nil
  then show ?case by simp
next
  case (Cons m ms)
  obtain k v where m: "m = (k, v)" by (cases m)
  have v: "parse_tokens (EValue, FMember acc k # st) (tokens_of v @ ts)
      = parse_tokens (ESeparator, FObj (obj_put k v acc) # st) ts" for ts
    using Cons.prems(1) [of k v "(EValue, FMember acc k # st)" ts] m
    by (simp add: after_value_def value_start_simps)
  from Cons.prems(3) have k: "parse_tokens (e, FObj acc # st) (TString k # TColon # ts)
      = parse_tokens (EValue, FMember acc k # st) ts" for ts
    by (auto simp: parse_tokens_Cons)
  show ?case
  proof (cases "ms = []")
    case True
    with m k v show ?thesis
      by (simp add: parse_tokens_Cons after_value_def)
  next
    case False
    have "parse_tokens (EKey, FObj (obj_put k v acc) # st)
            (join_tokens (map (\<lambda>(k, v). TString k # TColon # tokens_of v) ms) @ TRBrace # tks)
          = after_value (JObj (foldl (\<lambda>a (k, v). obj_put k v a) (obj_put k v acc) ms)) st tks"
    proof (rule Cons.IH [OF _ False])
      fix k' v' q' tks' assume "(k', v') \<in> set ms" and "value_start q'"
      then show "parse_tokens q' (tokens_of v' @ tks') = after_value v' (snd q') tks'"
        using Cons.prems(1) [of k' v' q' tks'] by simp
    qed simp
    with False m k v show ?thesis
      by (simp add: join_tokens_Cons parse_tokens_Cons)
  qed
qed

lemma parse_tokens_of:
  "well_formed v \<Longrightarrow> value_start q \<Longrightarrow>
   parse_tokens q (tokens_of v @ tks) = after_value v (snd q) tks"
proof (induction v arbitrary: q tks)
  case JUndefined
  then show ?case by simp
next
  case JNull
  then show ?case
    by (simp add: parse_tokens_Cons parse_step_value_start after_value_def)
next
  case (JBool b)
  then show ?case
    by (simp add: parse_tokens_Cons parse_step_value_start after_value_def)
next
  case (JNum l)
  then show ?case
    by (simp add: parse_tokens_Cons parse_step_value_start after_value_def)
next
  case (JStr s)
  then show ?case
    by (simp add: parse_tokens_Cons parse_step_value_start after_value_def)
next
  case (JArr vs)
  show ?case
  proof (cases "vs = []")
    case True
    with JArr.prems show ?thesis
      by (simp add: parse_tokens_Cons parse_step_value_start after_value_def)
  next
    case False
    have "parse_tokens (EValueOrEnd, FArr [] # snd q)
            (join_tokens (map tokens_of vs) @ TRBracket # tks)
          = after_value (JArr (rev [] @ vs)) (snd q) tks"
    proof (rule parse_elements [OF _ False])
      fix v q' tks' assume "v \<in> set vs" and "value_start q'"
      with JArr.IH [of v q' tks'] JArr.prems(1)
      show "parse_tokens q' (tokens_of v @ tks') = after_value v (snd q') tks'"
        by (simp add: list_all_iff)
    qed (simp_all add: value_start_simps)
    with JArr.prems show ?thesis
      by (simp add: parse_tokens_Cons parse_step_value_start)
  qed
next
  case (JObj ms)
  from JObj.prems(1) have r: "foldl (\<lambda>a (k, v). obj_put k v a) [] ms = ms"
    using rebuild_members [of "[]" ms] by simp
  show ?case
  proof (cases "ms = []")
    case True
    with JObj.prems show ?thesis
      by (simp add: parse_tokens_Cons parse_step_value_start after_value_def)
  next
    case False
    have "parse_tokens (EKeyOrEnd, FObj [] # snd q)
            (join_tokens (map (\<lambda>(k, v). TString k # TColon # tokens_of v) ms) @ TRBrace # tks)
          = after_value (JObj (foldl (\<lambda>a (k, v). obj_put k v a) [] ms)) (snd q) tks"
    proof (rule parse_members [OF _ False])
      fix k v q' tks' assume "(k, v) \<in> set ms" and "value_start q'"
      with JObj.IH [of "(k, v)" v q' tks'] JObj.prems(1)
      show "parse_tokens q' (tokens_of v @ tks') = after_value v (snd q') tks'"
        by (auto simp: list_all_iff)
    qed simp
    with JObj.prems r show ?thesis
      by (simp add: parse_tokens_Cons parse_step_value_start)
  qed
qed

lemma JSON_parse_text_of:
  assumes "well_formed v" and "written_as_read P v"
  shows "JSON_parse (text_of P v) = Some v"
proof -
  from tokenize_text_of [OF assms, of "[]"]
  have "tokenize (text_of P v) = Some (tokens_of v)" by (simp add: separator_next_simps)
  moreover from parse_tokens_of [OF assms(1), of "(EValue, [])" "[]"]
  have "parse_tokens (EValue, []) (tokens_of v) = Some v"
    by (simp add: value_start_simps after_value_def)
  ultimately show ?thesis by (simp add: JSON_parse_def)
qed

section \<open>The values JSON.parse returns are well formed\<close>

lemma next_token_ok: "next_token s = Some (tk, t) \<Longrightarrow> token_ok tk"
proof (cases tk)
  case (TNumber l)
  assume "next_token s = Some (tk, t)"
  with TNumber have "scan_number s = Some (l, t)"
    by (auto simp: next_token_def split: list.splits if_splits)
  from scan_number_again [OF this, of "[]"] TNumber show ?thesis
    by (simp add: separator_next_def)
qed simp_all

lemma tokenize_ok: "tokenize s = Some tks \<Longrightarrow> list_all token_ok tks"
proof (induction s arbitrary: tks rule: tokenize.induct)
  case 1
  then show ?case by simp
next
  case (2 c cs)
  show ?case
  proof (cases "is_json_whitespace c")
    case True
    with 2 show ?thesis by simp
  next
    case False
    with "2.prems" obtain tk t r where n: "next_token (c # cs) = Some (tk, t)"
      and r: "tokenize t = Some r" and tks: "tks = tk # r"
      by (auto split: option.splits)
    from "2.IH"(2) [OF False n refl r] next_token_ok [OF n] tks
    show ?thesis by simp
  qed
qed

lemma well_formed_obj_put:
  assumes "well_formed (JObj ms)" and "well_formed v"
  shows "well_formed (JObj (obj_put k v ms))"
proof -
  from assms have "\<forall>(k', v') \<in> set (obj_put k v ms). well_formed v'"
    by (auto simp: list_all_iff dest: obj_put_values)
  with assms(1) show ?thesis
    by (simp add: obj_put_property_order list_all_iff)
qed

lemma complete_value_ok:
  "well_formed v \<Longrightarrow> list_all frame_ok st \<Longrightarrow> complete_value v st = Some q \<Longrightarrow> state_ok q"
  by (cases "(v, st)" rule: complete_value.cases)
     (auto simp: well_formed_obj_put simp del: well_formed.simps(7))

lemma begin_value_ok:
  "token_ok tk \<Longrightarrow> list_all frame_ok st \<Longrightarrow> begin_value tk st = Some q \<Longrightarrow> state_ok q"
  by (cases tk) (auto simp: property_order_def dest: complete_value_ok [rotated 2])

lemma parse_step_ok:
  "state_ok q \<Longrightarrow> token_ok tk \<Longrightarrow> parse_step q tk = Some q' \<Longrightarrow> state_ok q'"
  by (cases "(q, tk)" rule: parse_step.cases)
     (auto simp: list_all_iff property_order_def
       dest: begin_value_ok [rotated 2] complete_value_ok [rotated 2])

lemma parse_tokens_ok:
  "state_ok q \<Longrightarrow> list_all token_ok tks \<Longrightarrow> parse_tokens q tks = Some v \<Longrightarrow> well_formed v"
proof (induction tks arbitrary: q)
  case Nil
  then show ?case by (cases "(q, [] :: token list)" rule: parse_tokens.cases) simp_all
next
  case (Cons tk tks)
  from Cons.prems(3) obtain q' where s: "parse_step q tk = Some q'"
    and p: "parse_tokens q' tks = Some v"
    by (auto split: option.splits)
  from parse_step_ok [OF Cons.prems(1) _ s] Cons.prems(2) have "state_ok q'" by simp
  from Cons.IH [OF this _ p] Cons.prems(2) show ?case by simp
qed

lemma JSON_parse_well_formed: "JSON_parse s = Some v \<Longrightarrow> well_formed v"
  by (auto simp: JSON_parse_def split: option.splits
      dest!: tokenize_ok intro: parse_tokens_ok [rotated 1])

lemma decodeJWT_well_formed: "well_formed (decodeJWT t)"
proof -
  have "well_formed (decode_payload p)" for p
    by (auto simp: decode_payload_def split: option.splits dest: JSON_parse_well_formed)
  then show ?thesis
    by (simp add: decodeJWT_def split: list.splits)
qed

section \<open>Numbers that are not written as they were read\<close>

lemma reread_undefined: "reread P v = JUndefined \<longleftrightarrow> v = JUndefined"
  by (cases v) simp_all

lemma serialize_cases:
  "serialize P v = (if v = JUndefined then None else Some (text_of P v))"
  by (simp add: serialize_text_of)

lemma text_of_reread: "text_of (P\<lparr>number_text := \<lambda>l. l\<rparr>) (reread P v) = text_of P v"
proof (induction v)
  case (JNum l)
  show ?case by (simp add: text_of_simps)
next
  case (JArr vs)
  then have e: "map (text_of (P\<lparr>number_text := \<lambda>l. l\<rparr>) \<circ> reread P) vs = map (text_of P) vs"
    by simp
  show ?case by (simp add: text_of_simps e)
next
  case (JObj ms)
  have "concat (map (\<lambda>(k, v). case serialize (P\<lparr>number_text := \<lambda>l. l\<rparr>) v of None \<Rightarrow> []
                               | Some t \<Rightarrow> [quote k @ js '':'' @ t])
                  (map (\<lambda>(k, v). (k, reread P v)) ms))
      = concat (map (\<lambda>(k, v). case serialize P v of None \<Rightarrow> []
                               | Some t \<Rightarrow> [quote k @ js '':'' @ t]) ms)"
    using JObj
  proof (induction ms)
    case Nil
    show ?case by simp
  next
    case (Cons m ms)
    obtain k v where m: "m = (k, v)" by (cases m)
    from Cons.prems [of m v] m
    have v: "text_of (P\<lparr>number_text := \<lambda>l. l\<rparr>) (reread P v) = text_of P v" by simp
    have "concat (map (\<lambda>(k, v). case serialize (P\<lparr>number_text := \<lambda>l. l\<rparr>) v of None \<Rightarrow> []
                               | Some t \<Rightarrow> [quote k @ js '':'' @ t])
                  (map (\<lambda>(k, v). (k, reread P v)) ms))
      = concat (map (\<lambda>(k, v). case serialize P v of None \<Rightarrow> []
                               | Some t \<Rightarrow> [quote k @ js '':'' @ t]) ms)"
    proof (rule Cons.IH)
      fix m' v' assume "m' \<in> set ms" and "v' \<in> Basic_BNFs.snds m'"
      then show "text_of (P\<lparr>number_text := \<lambda>l. l\<rparr>) (reread P v') = text_of P v'"
        using Cons.prems [of m' v'] by simp
    qed
    with m v show ?case by (simp add: serialize_cases reread_undefined)
  qed
  then show ?case by (simp add: text_of_def)
qed (simp_all add: text_of_simps text_of_def)

lemma written_as_read_own_text: "written_as_read (P\<lparr>number_text := \<lambda>l. l\<rparr>) v"
  by (induction v) (auto simp: list_all_iff)

lemma scan_number_null: "scan_number (js ''null'') = None"
  by (simp add: scan_number_def scan_int_def scan_digits_def js_def is_digit_def)

lemma well_formed_reread:
  "well_formed v \<Longrightarrow> numbers_written P v \<Longrightarrow> well_formed (reread P v)"
proof (induction v)
  case (JArr vs)
  then show ?case by (auto simp: list_all_iff)
next
  case (JObj ms)
  have k: "map (fst \<circ> (\<lambda>(k, v). (k, reread P v))) ms = map fst ms"
    by (induction ms) auto
  from JObj.prems(1) have "property_order (map (\<lambda>(k, v). (k, reread P v)) ms)"
    by (simp add: property_order_def k)
  moreover from JObj have "list_all (\<lambda>(k, v). well_formed v) (map (\<lambda>(k, v). (k, reread P v)) ms)"
    by (fastforce simp: list_all_iff)
  ultimately show ?case by simp
qed auto

lemma JSON_parse_text:
  assumes "well_formed v" and "numbers_written P v"
  shows "JSON_parse (text_of P v) = Some (reread P v)"
  using JSON_parse_text_of [OF well_formed_reread [OF assms] written_as_read_own_text, of P]
  by (simp add: text_of_reread)

lemma reread_written_as_read: "well_formed v \<Longrightarrow> written_as_read P v \<Longrightarrow> reread P v = v"
proof (induction v)
  case (JNum l)
  then show ?case using scan_number_null by auto
next
  case (JArr vs)
  then show ?case by (auto simp: list_all_iff intro: map_idI)
next
  case (JObj ms)
  then have "\<And>m. m \<in> set ms \<Longrightarrow> (\<lambda>(k, v). (k, reread P v)) m = m"
    by (fastforce simp: list_all_iff)
  then show ?case by (simp add: map_idI)
qed simp_all

section \<open>The outcomes of a login\<close>

lemma login_transport_failure:
  "fetch c = None \<Longrightarrow>
   login P fetch c b = (Inl network_error, b\<lparr>requests := requests b @ [c]\<rparr>)"
  by (simp add: login_def)

lemma login_not_json:
  "fetch c = Some r \<Longrightarrow> body_json r = None \<Longrightarrow>
   login P fetch c b = (Inl network_error, b\<lparr>requests := requests b @ [c]\<rparr>)"
  by (simp add: login_def handleApiResponse_def)

lemma login_not_ok:
  "fetch c = Some r \<Longrightarrow> body_json r = Some d \<Longrightarrow> \<not> ok r \<Longrightarrow>
   login P fetch c b =
     (Inl \<lparr>message = (if data_message d \<noteq> [] then data_message d else js ''An error occurred''),
           status = http_status r, errors = data_errors d\<rparr>,
      b\<lparr>requests := requests b @ [c]\<rparr>)"
  by (simp add: login_def handleApiResponse_def)

lemma login_ok:
  "fetch c = Some r \<Longrightarrow> body_json r = Some d \<Longrightarrow> ok r \<Longrightarrow>
   login P fetch c b =
     (case store_session P d (b\<lparr>requests := requests b @ [c]\<rparr>) of
        (Inl e, b') \<Rightarrow> (Inl network_error, b')
      | (Inr d', b') \<Rightarrow> (Inr d', b'))"
  unfolding login_def handleApiResponse_def store_session_def
  by (auto simp: Let_def split: option.splits sum.splits thrown.splits prod.splits)

lemma rejected_pending:
  "rejected (pending s) m =
     \<lparr>user = JNull, accessToken = None, refreshToken = None, isAuthenticated = False,
      loading = False, error = Some m, loginMessage = None\<rparr>"
  by (simp add: rejected_def pending_def)

lemma fulfilled_pending:
  "fulfilled P (pending s) d =
     \<lparr>user = (if truthy P (data_user d) then data_user d else JNull),
      accessToken = or_null (data_accessToken d), refreshToken = or_null (data_refreshToken d),
      isAuthenticated = True, loading = False, error = None,
      loginMessage = or_null (data_message d)\<rparr>"
  by (simp add: fulfilled_def pending_def)

lemma userInfo_truthy: "truthy P v \<Longrightarrow> \<exists>info. userInfo v = Some info"
  by (cases v) (simp_all add: userInfo_def)

lemma userInfo_object:
  "userInfo (JObj ms) =
     Some (JObj [(js ''email'', case map_of ms (js ''email'') of None \<Rightarrow> JUndefined | Some v \<Rightarrow> v),
                 (js ''nameid'', case map_of ms (js ''nameid'') of None \<Rightarrow> JUndefined | Some v \<Rightarrow> v),
                 (js ''unique_name'',
                    case map_of ms (js ''unique_name'') of None \<Rightarrow> JUndefined | Some v \<Rightarrow> v),
                 (js ''role'', case map_of ms (js ''role'') of None \<Rightarrow> JUndefined | Some v \<Rightarrow> v)])"
  by (simp add: userInfo_def)

lemma store_session_skipped:
  "\<not> (data_success d \<and> data_accessToken d \<noteq> []) \<Longrightarrow> store_session P d b = (Inr d, b)"
  by (auto simp: store_session_def)

lemma store_session_not_decoded:
  "data_success d \<Longrightarrow> data_accessToken d \<noteq> [] \<Longrightarrow>
   \<not> truthy P (decodeJWT (data_accessToken d)) \<Longrightarrow>
   store_session P d b =
     (Inr d, setItem (js ''refreshToken'') (data_refreshToken d)
               (setItem (js ''accessToken'') (data_accessToken d) b))"
  by (simp add: store_session_def)

lemma store_session_decoded:
  "data_success d \<Longrightarrow> data_accessToken d \<noteq> [] \<Longrightarrow> truthy P (decodeJWT (data_accessToken d)) \<Longrightarrow>
   userInfo (decodeJWT (data_accessToken d)) = Some info \<Longrightarrow>
   store_session P d b =
     (Inr (d\<lparr>data_user := info\<rparr>),
      setItem (js ''user'') (case JSON_stringify P info of None \<Rightarrow> js ''undefined'' | Some t \<Rightarrow> t)
        (setItem (js ''refreshToken'') (data_refreshToken d)
          (setItem (js ''accessToken'') (data_accessToken d) b)))"
  by (simp add: store_session_def)

lemma loginAsync_not_decoded:
  assumes "fetch c = Some r" "ok r" "body_json r = Some d" "data_success d"
    "data_accessToken d \<noteq> []" "\<not> truthy P (decodeJWT (data_accessToken d))"
  shows "loginAsync P fetch c w =
     \<lparr>browser = setItem (js ''refreshToken'') (data_refreshToken d)
                  (setItem (js ''accessToken'') (data_accessToken d)
                     ((browser w)\<lparr>requests := requests (browser w) @ [c]\<rparr>)),
      auth = \<lparr>user = (if truthy P (data_user d) then data_user d else JNull),
              accessToken = Some (data_accessToken d),
              refreshToken = or_null (data_refreshToken d),
              isAuthenticated = True, loading = False, error = None,
              loginMessage = or_null (data_message d)\<rparr>\<rparr>"
  using assms
  by (simp add: loginAsync_def login_ok store_session_not_decoded fulfilled_pending or_null_def)

lemma loginAsync_decoded:
  assumes "fetch c = Some r" "ok r" "body_json r = Some d" "data_success d"
    "data_accessToken d \<noteq> []" "truthy P (decodeJWT (data_accessToken d))"
    "userInfo (decodeJWT (data_accessToken d)) = Some info" "truthy P info"
  shows "loginAsync P fetch c w =
     \<lparr>browser = setItem (js ''user'')
                  (case JSON_stringify P info of None \<Rightarrow> js ''undefined'' | Some t \<Rightarrow> t)
                  (setItem (js ''refreshToken'') (data_refreshToken d)
                    (setItem (js ''accessToken'') (data_accessToken d)
                      ((browser w)\<lparr>requests := requests (browser w) @ [c]\<rparr>))),
      auth = \<lparr>user = info,
              accessToken = Some (data_accessToken d),
              refreshToken = or_null (data_refreshToken d),
              isAuthenticated = True, loading = False, error = None,
              loginMessage = or_null (data_message d)\<rparr>\<rparr>"
  using assms
  by (simp add: loginAsync_def login_ok store_session_decoded fulfilled_pending or_null_def)

lemma session_keys_distinct:
  "js ''accessToken'' \<noteq> js ''refreshToken''" "js ''accessToken'' \<noteq> js ''user''"
  "js ''refreshToken'' \<noteq> js ''user''" "js ''refreshToken'' \<noteq> js ''accessToken''"
  "js ''user'' \<noteq> js ''accessToken''" "js ''user'' \<noteq> js ''refreshToken''"
  by (simp_all add: js_def)

lemma initialState_fresh: "initialState P fresh_browser = Some unauthenticated"
  by (simp add: initialState_def getStoredUser_def getItem_def fresh_browser_def
      unauthenticated_def isAuthenticated_api_def getToken_def)

lemma get_prop_well_formed:
  assumes "well_formed t" and "get_prop t k = Some v"
  shows "v = JUndefined \<or> well_formed v"
proof (cases t)
  case (JObj ms)
  show ?thesis
  proof (cases "map_of ms k")
    case None
    with JObj assms(2) show ?thesis by simp
  next
    case (Some x)
    with JObj assms(2) have "(k, v) \<in> set ms" by (auto dest: map_of_SomeD)
    with JObj assms(1) show ?thesis by (auto simp: list_all_iff)
  qed
qed (use assms(2) in simp_all)

lemma userInfo_Some:
  assumes "userInfo t = Some info"
  shows "\<exists>e n u ro. info = JObj [(js ''email'', e), (js ''nameid'', n), (js ''unique_name'', u),
                                  (js ''role'', ro)]
           \<and> get_prop t (js ''email'') = Some e \<and> get_prop t (js ''nameid'') = Some n
           \<and> get_prop t (js ''unique_name'') = Some u \<and> get_prop t (js ''role'') = Some ro"
  using assms by (auto simp: userInfo_def split: option.splits)

lemma serialize_drop_undefined: "serialize P (drop_undefined v) = serialize P v"
proof (cases v)
  case (JObj ms)
  have "concat (map (\<lambda>(k, v). case serialize P v of None \<Rightarrow> []
                               | Some t \<Rightarrow> [quote k @ js '':'' @ t])
                  (filter (\<lambda>(k, v). v \<noteq> JUndefined) ms))
      = concat (map (\<lambda>(k, v). case serialize P v of None \<Rightarrow> []
                               | Some t \<Rightarrow> [quote k @ js '':'' @ t]) ms)"
    by (induction ms) auto
  with JObj show ?thesis by simp
qed simp_all

lemma property_order_filter: "property_order ms \<Longrightarrow> property_order (filter p ms)"
proof (induction ms)
  case Nil
  show ?case by (simp add: property_order_def)
next
  case (Cons m ms)
  from Cons.prems have "property_order ms" by (simp add: property_order_def)
  from Cons.IH [OF this] Cons.prems show ?case
    by (auto simp: property_order_def)
qed

lemma user_record_order:
  "property_order [(js ''email'', e), (js ''nameid'', n), (js ''unique_name'', u),
                   (js ''role'', ro)]"
  by (simp add: property_order_def comes_before_def array_index_def js_def is_digit_def)

lemma well_formed_user_info:
  assumes "well_formed t" and "userInfo t = Some info"
  shows "well_formed (drop_undefined info)"
proof -
  from userInfo_Some [OF assms(2)] obtain e n u ro where
    info: "info = JObj [(js ''email'', e), (js ''nameid'', n), (js ''unique_name'', u),
                        (js ''role'', ro)]"
    and g: "get_prop t (js ''email'') = Some e" "get_prop t (js ''nameid'') = Some n"
      "get_prop t (js ''unique_name'') = Some u" "get_prop t (js ''role'') = Some ro"
    by blast
  from g have w: "e = JUndefined \<or> well_formed e" "n = JUndefined \<or> well_formed n"
    "u = JUndefined \<or> well_formed u" "ro = JUndefined \<or> well_formed ro"
    by (auto dest: get_prop_well_formed [OF assms(1)])
  have "property_order (filter (\<lambda>(k, v). v \<noteq> JUndefined)
          [(js ''email'', e), (js ''nameid'', n), (js ''unique_name'', u), (js ''role'', ro)])"
    by (rule property_order_filter) (rule user_record_order)
  moreover from w have "list_all (\<lambda>(k, v). well_formed v) (filter (\<lambda>(k, v). v \<noteq> JUndefined)
          [(js ''email'', e), (js ''nameid'', n), (js ''unique_name'', u), (js ''role'', ro)])"
    by auto
  ultimately show ?thesis
    unfolding info drop_undefined.simps well_formed.simps by (rule conjI)
qed

lemma numbers_written_drop_undefined:
  "numbers_written P v \<Longrightarrow> numbers_written P (drop_undefined v)"
  by (cases v) (simp_all add: list_all_iff)

lemma stored_user_read_back:
  assumes "well_formed t" and "userInfo t = Some info" and "numbers_written P info"
  shows "JSON_stringify P info = Some (text_of P (drop_undefined info))"
    and "text_of P (drop_undefined info) \<noteq> []"
    and "JSON_parse (text_of P (drop_undefined info)) = Some (reread P (drop_undefined info))"
proof -
  from userInfo_Some [OF assms(2)] obtain ms where info: "info = JObj ms" by blast
  then have "serialize P (drop_undefined info) = Some (text_of P (drop_undefined info))"
    by (simp add: text_of_def)
  then show "JSON_stringify P info = Some (text_of P (drop_undefined info))"
    by (simp add: JSON_stringify_def serialize_drop_undefined)
  from info show "text_of P (drop_undefined info) \<noteq> []"
    by (simp add: text_of_def js_def)
  from well_formed_user_info [OF assms(1,2)] numbers_written_drop_undefined [OF assms(3)]
  show "JSON_parse (text_of P (drop_undefined info)) = Some (reread P (drop_undefined info))"
    by (rule JSON_parse_text)
qed

lemma initialState_stored:
  assumes "tok \<noteq> []" and "text \<noteq> []" and "JSON_parse text = Some v" and "truthy P v"
  shows "initialState P
     (setItem (js ''user'') text
        (setItem (js ''refreshToken'') rt (setItem (js ''accessToken'') tok b))) =
     Some \<lparr>user = v, accessToken = Some tok, refreshToken = Some rt, isAuthenticated = True,
           loading = False, error = None, loginMessage = None\<rparr>"
  using assms
  by (simp add: initialState_def getStoredUser_def getItem_def setItem_def isAuthenticated_api_def
      getToken_def session_keys_distinct)

lemma drop_undefined_all_carried:
  assumes "userInfo t = Some info" and "carries t (js ''email'')" and "carries t (js ''nameid'')"
    and "carries t (js ''unique_name'')" and "carries t (js ''role'')"
  shows "drop_undefined info = info"
proof -
  from userInfo_Some [OF assms(1)] obtain e n u ro where
    info: "info = JObj [(js ''email'', e), (js ''nameid'', n), (js ''unique_name'', u),
                        (js ''role'', ro)]"
    and g: "get_prop t (js ''email'') = Some e" "get_prop t (js ''nameid'') = Some n"
      "get_prop t (js ''unique_name'') = Some u" "get_prop t (js ''role'') = Some ro"
    by blast
  from g assms(2-5) info show ?thesis by (simp add: carries_def)
qed

lemma restart_after_login:
  assumes "fetch c = Some r" and "ok r" and "body_json r = Some d" and "data_success d"
    and "data_accessToken d \<noteq> []" and "truthy P (decodeJWT (data_accessToken d))"
    and "userInfo (decodeJWT (data_accessToken d)) = Some info"
    and "numbers_written P info"
  shows "auth (loginAsync P fetch c w) =
           \<lparr>user = info, accessToken = Some (data_accessToken d),
            refreshToken = or_null (data_refreshToken d),
            isAuthenticated = True, loading = False, error = None,
            loginMessage = or_null (data_message d)\<rparr>"
    and "initialState P (browser (loginAsync P fetch c w)) =
           Some \<lparr>user = reread P (drop_undefined info), accessToken = Some (data_accessToken d),
                 refreshToken = Some (data_refreshToken d),
                 isAuthenticated = True, loading = False, error = None, loginMessage = None\<rparr>"
proof -
  from userInfo_Some [OF assms(7)] obtain ms where info: "info = JObj ms" by blast
  then have t: "truthy P info" "truthy P (reread P (drop_undefined info))" by simp_all
  note l = loginAsync_decoded [where fetch = fetch and c = c and w = w, OF assms(1-7) t(1)]
  show "auth (loginAsync P fetch c w) =
           \<lparr>user = info, accessToken = Some (data_accessToken d),
            refreshToken = or_null (data_refreshToken d),
            isAuthenticated = True, loading = False, error = None,
            loginMessage = or_null (data_message d)\<rparr>"
    by (simp add: l)
  note s = stored_user_read_back [OF decodeJWT_well_formed assms(7,8)]
  show "initialState P (browser (loginAsync P fetch c w)) =
           Some \<lparr>user = reread P (drop_undefined info), accessToken = Some (data_accessToken d),
                 refreshToken = Some (data_refreshToken d),
                 isAuthenticated = True, loading = False, error = None, loginMessage = None\<rparr>"
    by (simp add: l s(1) initialState_stored [OF assms(5) s(2) s(3) t(2)])
qed

lemma user_info_unchanged:
  assumes "userInfo (decodeJWT tok) = Some info" and "written_as_read P info"
    and "carries (decodeJWT tok) (js ''email'')" and "carries (decodeJWT tok) (js ''nameid'')"
    and "carries (decodeJWT tok) (js ''unique_name'')" and "carries (decodeJWT tok) (js ''role'')"
  shows "reread P (drop_undefined info) = info"
proof -
  from drop_undefined_all_carried [OF assms(1,3-6)] have d: "drop_undefined info = info" .
  from well_formed_user_info [OF decodeJWT_well_formed assms(1)] d
  have "well_formed info" by simp
  from reread_written_as_read [OF this assms(2)] d show ?thesis by simp
qed

section \<open>The examples, evaluated\<close>

lemma js_nonempty:
  "js ''opaque-token'' \<noteq> []" "alice_token \<noteq> []" "js ''r1'' \<noteq> []" "js ''r2'' \<noteq> []"
  "js ''ok'' \<noteq> []"
  by (simp_all add: js_def alice_token_def)

lemma decode_alice_token: "decodeJWT alice_token = alice_user"
  by (simp add: alice_token_def alice_user_def decodeJWT_def js_def decode_payload_def atob_def
      strip_padding_def is_ascii_whitespace_def base64_value_def JSON_parse_def
      is_json_whitespace_def next_token_def obj_put_def array_index_def is_digit_def)

lemma decode_opaque: "decodeJWT (js ''opaque-token'') = JNull"
  by (rule decodeJWT_no_dot) (simp add: js_def)

lemma userInfo_alice: "userInfo alice_user = Some alice_user"
  by (simp add: userInfo_def alice_user_def js_def)

lemma alice_user_truthy: "truthy P alice_user"
  by (simp add: alice_user_def)

lemma alice_claims:
  "map_of [(js ''email'', JStr (js ''a@b.com'')), (js ''nameid'', JStr (js ''42'')),
     (js ''unique_name'', JStr (js ''Alice'')), (js ''role'', JStr (js ''Admin''))] (js ''email'')
     = Some (JStr (js ''a@b.com''))"
  "map_of [(js ''email'', JStr (js ''a@b.com'')), (js ''nameid'', JStr (js ''42'')),
     (js ''unique_name'', JStr (js ''Alice'')), (js ''role'', JStr (js ''Admin''))] (js ''nameid'')
     = Some (JStr (js ''42''))"
  "map_of [(js ''email'', JStr (js ''a@b.com'')), (js ''nameid'', JStr (js ''42'')),
     (js ''unique_name'', JStr (js ''Alice'')), (js ''role'', JStr (js ''Admin''))]
     (js ''unique_name'') = Some (JStr (js ''Alice''))"
  "map_of [(js ''email'', JStr (js ''a@b.com'')), (js ''nameid'', JStr (js ''42'')),
     (js ''unique_name'', JStr (js ''Alice'')), (js ''role'', JStr (js ''Admin''))] (js ''role'')
     = Some (JStr (js ''Admin''))"
  by (simp_all add: js_def)

lemma opaque_login_facts:
  "answering opaque_login c = Some opaque_login"
  "ok opaque_login" "body_json opaque_login = Some opaque_body" "data_success opaque_body"
  "data_accessToken opaque_body = js ''opaque-token''" "data_refreshToken opaque_body = js ''r2''"
  "data_message opaque_body = js ''ok''" "data_user opaque_body = JUndefined"
  by (simp_all add: answering_def ok_def opaque_login_def opaque_body_def)

lemma opaque_body_not_decoded:
  "data_accessToken opaque_body \<noteq> []"
  "decodeJWT (data_accessToken opaque_body) = JNull"
  "\<not> truthy P (decodeJWT (data_accessToken opaque_body))"
  by (simp_all add: opaque_login_facts decode_opaque js_nonempty)

lemma alice_login_facts:
  "answering alice_login c = Some alice_login"
  "ok alice_login" "body_json alice_login = Some alice_body" "data_success alice_body"
  "data_accessToken alice_body = alice_token" "data_refreshToken alice_body = js ''r1''"
  "data_message alice_body = js ''ok''" "data_user alice_body = JUndefined"
  by (simp_all add: answering_def ok_def alice_login_def alice_body_def)

lemma alice_body_decoded:
  "data_accessToken alice_body \<noteq> []"
  "decodeJWT (data_accessToken alice_body) =
     JObj [(js ''email'', JStr (js ''a@b.com'')), (js ''nameid'', JStr (js ''42'')),
           (js ''unique_name'', JStr (js ''Alice'')), (js ''role'', JStr (js ''Admin''))]"
  using decode_alice_token by (simp_all add: alice_login_facts js_nonempty alice_user_def)

lemma alice_logged_in:
  "loginAsync P (answering alice_login) alice fresh_world =
     \<lparr>browser = \<lparr>localStorage =
                   [js ''accessToken'' \<mapsto> alice_token, js ''refreshToken'' \<mapsto> js ''r1'',
                    js ''user'' \<mapsto>
                      js ''{'' @ quote (js ''email'') @ js '':'' @ quote (js ''a@b.com'') @ js '','' @
                      quote (js ''nameid'') @ js '':'' @ quote (js ''42'') @ js '','' @
                      quote (js ''unique_name'') @ js '':'' @ quote (js ''Alice'') @ js '','' @
                      quote (js ''role'') @ js '':'' @ quote (js ''Admin'') @ js ''}''],
                 requests = [alice]\<rparr>,
      auth = \<lparr>user = alice_user, accessToken = Some alice_token, refreshToken = Some (js ''r1''),
              isAuthenticated = True, loading = False, error = None,
              loginMessage = Some (js ''ok'')\<rparr>\<rparr>"
proof -
  have s: "JSON_stringify P alice_user = Some
     (js ''{'' @ quote (js ''email'') @ js '':'' @ quote (js ''a@b.com'') @ js '','' @
      quote (js ''nameid'') @ js '':'' @ quote (js ''42'') @ js '','' @
      quote (js ''unique_name'') @ js '':'' @ quote (js ''Alice'') @ js '','' @
      quote (js ''role'') @ js '':'' @ quote (js ''Admin'') @ js ''}'')"
    unfolding alice_user_def by (rule JSON_stringify_user)
  show ?thesis
    using loginAsync_decoded [of "answering alice_login" alice alice_login alice_body P alice_user
        fresh_world]
    by (simp add: alice_login_facts decode_alice_token userInfo_alice alice_user_truthy s
        or_null_def js_nonempty setItem_def fresh_world_def fresh_browser_def)
qed

lemma opaque_logged_in:
  "loginAsync P (answering opaque_login) alice fresh_world =
     \<lparr>browser = \<lparr>localStorage =
                   [js ''accessToken'' \<mapsto> js ''opaque-token'', js ''refreshToken'' \<mapsto> js ''r2''],
                 requests = [alice]\<rparr>,
      auth = \<lparr>user = JNull, accessToken = Some (js ''opaque-token''),
              refreshToken = Some (js ''r2''), isAuthenticated = True, loading = False,
              error = None, loginMessage = Some (js ''ok'')\<rparr>\<rparr>"
  using loginAsync_not_decoded [where fetch = "answering opaque_login" and c = alice
      and w = fresh_world and P = P, OF opaque_login_facts(1) opaque_login_facts(2)
      opaque_login_facts(3) opaque_login_facts(4) opaque_body_not_decoded(1)
      opaque_body_not_decoded(3)]
  by (simp add: opaque_login_facts or_null_def js_nonempty setItem_def fresh_world_def
      fresh_browser_def)

lemma decode_email_only_token:
  "decodeJWT email_only_token = JObj [(js ''email'', JStr (js ''a@b.com''))]"
  by (simp add: email_only_token_def decodeJWT_def js_def decode_payload_def atob_def
      strip_padding_def is_ascii_whitespace_def base64_value_def JSON_parse_def
      is_json_whitespace_def next_token_def obj_put_def array_index_def is_digit_def)

lemma email_only_login_facts:
  "answering email_only_login c = Some email_only_login"
  "ok email_only_login" "body_json email_only_login = Some email_only_body"
  "data_success email_only_body"
  "data_accessToken email_only_body = email_only_token"
  "data_refreshToken email_only_body = js ''r3''"
  "data_message email_only_body = js ''ok''" "data_user email_only_body = JUndefined"
  by (simp_all add: answering_def ok_def email_only_login_def email_only_body_def)

lemma email_only_body_decoded:
  "data_accessToken email_only_body \<noteq> []"
  "truthy P (decodeJWT (data_accessToken email_only_body))"
  "userInfo (decodeJWT (data_accessToken email_only_body)) =
     Some (JObj [(js ''email'', JStr (js ''a@b.com'')), (js ''nameid'', JUndefined),
                 (js ''unique_name'', JUndefined), (js ''role'', JUndefined)])"
  "numbers_written P (JObj [(js ''email'', JStr (js ''a@b.com'')), (js ''nameid'', JUndefined),
                 (js ''unique_name'', JUndefined), (js ''role'', JUndefined)])"
proof -
  show "data_accessToken email_only_body \<noteq> []"
    by (simp add: email_only_login_facts email_only_token_def js_def)
  show "truthy P (decodeJWT (data_accessToken email_only_body))"
    by (simp add: email_only_login_facts decode_email_only_token)
  show "userInfo (decodeJWT (data_accessToken email_only_body)) =
     Some (JObj [(js ''email'', JStr (js ''a@b.com'')), (js ''nameid'', JUndefined),
                 (js ''unique_name'', JUndefined), (js ''role'', JUndefined)])"
    by (simp add: email_only_login_facts decode_email_only_token userInfo_def) (simp add: js_def)
  show "numbers_written P (JObj [(js ''email'', JStr (js ''a@b.com'')), (js ''nameid'', JUndefined),
                 (js ''unique_name'', JUndefined), (js ''role'', JUndefined)])"
    by simp
qed

lemma alice_carried:
  "carries (decodeJWT (data_accessToken alice_body)) (js ''email'')"
  "carries (decodeJWT (data_accessToken alice_body)) (js ''nameid'')"
  "carries (decodeJWT (data_accessToken alice_body)) (js ''unique_name'')"
  "carries (decodeJWT (data_accessToken alice_body)) (js ''role'')"
  by (simp_all add: alice_body_decoded(2) carries_def js_def)

section \<open>Worlds that keep the invariant\<close>

lemma initialState_user_has_token:
  assumes "store_consistent b" and "initialState P b = Some s"
  shows "user_has_token \<lparr>browser = b, auth = s\<rparr>"
  using assms
  by (auto simp: user_has_token_def store_consistent_def initialState_def getStoredUser_def
      getItem_def split: option.splits if_splits)

lemma store_session_consistent:
  "store_consistent b \<Longrightarrow> store_consistent (snd (store_session P d b))"
  by (auto simp: store_session_def store_consistent_def setItem_def Let_def session_keys_distinct
      split: option.splits)

lemma store_session_user:
  assumes "store_session P d b = (Inr d', b')" and "data_user d = JUndefined"
    and "truthy P (data_user d')"
  shows "data_success d \<and> data_accessToken d \<noteq> [] \<and> data_accessToken d' = data_accessToken d"
  using assms
  by (auto simp: store_session_def Let_def split: if_splits option.splits)

lemma login_consistent:
  "store_consistent b \<Longrightarrow> store_consistent (snd (login P fetch c b))"
proof -
  assume b: "store_consistent b"
  then have b0: "store_consistent (b\<lparr>requests := requests b @ [c]\<rparr>)"
    by (simp add: store_consistent_def)
  show ?thesis
  proof (cases "fetch c")
    case None
    with b0 show ?thesis by (simp add: login_def)
  next
    case (Some r)
    show ?thesis
    proof (cases "handleApiResponse r")
      case (Inl e)
      with Some b0 show ?thesis by (cases e) (simp_all add: login_def)
    next
      case (Inr d)
      with Some store_session_consistent [OF b0, of P d] show ?thesis
        by (auto simp: login_def split: prod.splits sum.splits thrown.splits)
    qed
  qed
qed

lemma login_user:
  assumes "login P fetch c b = (Inr d', b')" and "no_user_field fetch" and "truthy P (data_user d')"
  shows "data_accessToken d' \<noteq> []"
proof -
  from assms(1) obtain r d where r: "fetch c = Some r" and d: "handleApiResponse r = Inr d"
    and s: "store_session P d (b\<lparr>requests := requests b @ [c]\<rparr>) = (Inr d', b')"
    by (auto simp: login_def Let_def split: option.splits sum.splits thrown.splits prod.splits)
  from d have "body_json r = Some d"
    by (auto simp: handleApiResponse_def split: option.splits if_splits)
  with r assms(2) have "data_user d = JUndefined" by (auto simp: no_user_field_def)
  from store_session_user [OF s this assms(3)] show ?thesis by simp
qed

lemma loginAsync_user_has_token:
  assumes "user_has_token w" and "no_user_field fetch"
  shows "user_has_token (loginAsync P fetch c w)"
proof (cases "login P fetch c (browser w)")
  case (Pair res b')
  from assms(1) login_consistent [of "browser w" P fetch c] Pair
  have b': "store_consistent b'" by (simp add: user_has_token_def)
  show ?thesis
  proof (cases res)
    case (Inl e)
    with Pair b' show ?thesis
      by (simp add: loginAsync_def user_has_token_def rejected_def)
  next
    case (Inr d')
    with Pair login_user [of P fetch c "browser w" d' b', OF _ assms(2)]
    have "truthy P (data_user d') \<Longrightarrow> data_accessToken d' \<noteq> []" by simp
    with Pair Inr b' show ?thesis
      by (auto simp: loginAsync_def user_has_token_def fulfilled_def or_null_def)
  qed
qed

lemma logout_user_has_token: "user_has_token (logout w)"
  by (simp add: user_has_token_def logout_def store_consistent_def logoutApi_def removeItem_def)

lemma clearError_user_has_token:
  "user_has_token w \<Longrightarrow> user_has_token (w\<lparr>auth := clearError (auth w)\<rparr>)"
  by (simp add: user_has_token_def clearError_def)

lemma reachable_user_has_token:
  "reachable P store_consistent no_user_field w \<Longrightarrow> user_has_token w"
proof (induction rule: reachable.induct)
  case (start b s)
  then show ?case by (rule initialState_user_has_token)
next
  case (after_login w fetch credentials)
  then show ?case by (simp add: loginAsync_user_has_token)
next
  case (after_logout w)
  show ?case by (rule logout_user_has_token)
next
  case (after_clearError w)
  then show ?case by (simp add: clearError_user_has_token)
qed

lemma fresh_consistent: "store_consistent fresh_browser"
  by (simp add: store_consistent_def fresh_browser_def)

lemma fresh_world_reachable: "reachable P store_consistent F fresh_world"
  unfolding fresh_world_def
  by (rule reachable.start [where B = store_consistent and b = fresh_browser,
        OF fresh_consistent initialState_fresh])

lemma no_user_field_alice: "no_user_field (answering alice_login)"
  by (simp add: no_user_field_def answering_def alice_login_def alice_body_def)

lemma no_user_field_opaque: "no_user_field (answering opaque_login)"
  by (simp add: no_user_field_def answering_def opaque_login_def opaque_body_def)

section \<open>The token decoder\<close>

text \<open>
  C5 (as amended). \<^verbatim>\<open>decodeJWT\<close> is total and returns null where it would raise. It does
  not count the segments of the token: it reads the second of the segments that the dots
  separate, however many follow. The result is null when the token has no dot; for a token
  \<open>h.p\<close> or \<open>h.p.rest\<close> it is null when \<open>p\<close> is not base64 text, when the decoded text is
  not JSON, and when the decoded text is the JSON \<open>null\<close>; in every other case it is the
  JSON value the decoded text denotes, which need not be a record.
\<close>

theorem decodeJWT_cases:
  "(0x2E \<notin> set t \<longrightarrow> decodeJWT t = JNull)
   \<and> (0x2E \<notin> set h \<and> 0x2E \<notin> set p \<and> (r = [] \<or> (\<exists>r'. r = 0x2E # r')) \<longrightarrow>
        decodeJWT (h @ 0x2E # p @ r) =
          (case atob p of
             None \<Rightarrow> JNull
           | Some text \<Rightarrow> (case JSON_parse text of None \<Rightarrow> JNull | Some decoded \<Rightarrow> decoded)))"
  using decodeJWT_no_dot [of t] decodeJWT_second_segment [of h p r]
  by (simp add: decode_payload_def)

theorem decodeJWT_cases_witness:
  "0x2E \<notin> set (js ''abc'') \<and> decodeJWT (js ''abc'') = JNull
   \<and> 0x2E \<notin> set (js ''x'') \<and> 0x2E \<notin> set (js ''e30'')
   \<and> decodeJWT (js ''x'' @ 0x2E # js ''e30'' @ []) = JObj []"
proof -
  have a: "0x2E \<notin> set (js ''abc'')" and x: "0x2E \<notin> set (js ''x'')"
    and p: "0x2E \<notin> set (js ''e30'')"
    by (simp_all add: js_def)
  have v: "(case atob (js ''e30'') of
             None \<Rightarrow> JNull
           | Some text \<Rightarrow> (case JSON_parse text of None \<Rightarrow> JNull | Some decoded \<Rightarrow> decoded))
         = JObj []"
    by (simp add: js_def atob_def strip_padding_def is_ascii_whitespace_def base64_value_def
        JSON_parse_def is_json_whitespace_def next_token_def)
  from a x p decodeJWT_cases [of "js ''abc''" "js ''x''" "js ''e30''" "[]"]
  show ?thesis by (simp only: v simp_thms)
qed

text \<open>
  The token \<open>x.e30\<close> has one dot and two segments, and \<open>e30\<close> is the base64 text of
  \<open>{}\<close>: the decoder returns the empty record, not null.
\<close>

theorem decodeJWT_segments_counterexample:
  "length (split 0x2E (js ''x.e30'')) = 2 \<and> decodeJWT (js ''x.e30'') = JObj []"
  by (simp add: decodeJWT_def js_def decode_payload_def atob_def strip_padding_def
      is_ascii_whitespace_def base64_value_def JSON_parse_def is_json_whitespace_def
      next_token_def)

section \<open>Successful logins\<close>

text \<open>
  C3 (as amended). When the token of a 2xx response with \<open>success: true\<close> decodes to a
  record with the fields \<open>email\<close>, \<open>nameid\<close>, \<open>unique_name\<close> and \<open>role\<close>, the user of
  the state after the login is the record of these four values under the names
  \<open>email\<close>, \<open>nameid\<close>, \<open>unique_name\<close> and \<open>role\<close>: the names of the token are kept,
  none is turned into \<open>id\<close> or \<open>displayName\<close>.
\<close>

theorem login_user_record:
  assumes "fetch c = Some r" and "ok r" and "body_json r = Some d" and "data_success d"
    and "data_accessToken d \<noteq> []" and "decodeJWT (data_accessToken d) = JObj ms"
    and "map_of ms (js ''email'') = Some e" and "map_of ms (js ''nameid'') = Some n"
    and "map_of ms (js ''unique_name'') = Some u" and "map_of ms (js ''role'') = Some ro"
  shows "user (auth (loginAsync P fetch c w)) =
     JObj [(js ''email'', e), (js ''nameid'', n), (js ''unique_name'', u), (js ''role'', ro)]"
  using assms
    loginAsync_decoded [of fetch c r d P
      "JObj [(js ''email'', e), (js ''nameid'', n), (js ''unique_name'', u), (js ''role'', ro)]" w]
  by (simp add: userInfo_object)

text \<open>Scenario A: the user of the final state.\<close>

theorem login_user_record_witness:
  "ok alice_login \<and> decodeJWT (data_accessToken alice_body) = alice_user
   \<and> user (auth (loginAsync example_platform (answering alice_login) alice fresh_world)) =
       JObj [(js ''email'', JStr (js ''a@b.com'')), (js ''nameid'', JStr (js ''42'')),
             (js ''unique_name'', JStr (js ''Alice'')), (js ''role'', JStr (js ''Admin''))]"
proof -
  have "user (auth (loginAsync example_platform (answering alice_login) alice fresh_world)) =
       JObj [(js ''email'', JStr (js ''a@b.com'')), (js ''nameid'', JStr (js ''42'')),
             (js ''unique_name'', JStr (js ''Alice'')), (js ''role'', JStr (js ''Admin''))]"
    by (rule login_user_record [where fetch = "answering alice_login" and r = alice_login
          and d = alice_body, OF alice_login_facts(1) alice_login_facts(2) alice_login_facts(3)
          alice_login_facts(4) alice_body_decoded alice_claims])
  then show ?thesis
    by (simp add: alice_login_facts decode_alice_token)
qed

text \<open>
  Scenario A: the user of the final state is not the record with the fields \<open>id\<close> and
  \<open>displayName\<close>; it has no property of either name.
\<close>

theorem user_field_names_counterexample:
  "user (auth (loginAsync example_platform (answering alice_login) alice fresh_world)) \<noteq>
       JObj [(js ''email'', JStr (js ''a@b.com'')), (js ''id'', JStr (js ''42'')),
             (js ''displayName'', JStr (js ''Alice'')), (js ''role'', JStr (js ''Admin''))]
   \<and> get_prop (user (auth (loginAsync example_platform (answering alice_login) alice fresh_world)))
        (js ''id'') = Some JUndefined
   \<and> get_prop (user (auth (loginAsync example_platform (answering alice_login) alice fresh_world)))
        (js ''displayName'') = Some JUndefined"
  by (simp add: alice_logged_in alice_user_def) (simp add: js_def)

text \<open>
  C7 (as amended). After every login that succeeds (a 2xx response with \<open>success: true\<close> and
  a token that decodes to a truthy value), where \<^verbatim>\<open>JSON.stringify\<close> writes each number of
  the user record as a number literal or as \<open>null\<close>: the user of the login is the record
  of the four claims read from the decoded token, the state is authenticated, and the
  initial state computed from the browser's storage is the state the login left, but for
  the refresh token (read back as stored, also when empty), the login message (null) and
  the user, which is the user of the login without its properties that are
  \<^verbatim>\<open>undefined\<close> and with its numbers as they were written. When the token carries all
  four claims and every number is written as the literal it was read from, the user is
  that of the login.
\<close>

theorem session_restart:
  assumes "fetch c = Some r" and "ok r" and "body_json r = Some d" and "data_success d"
    and "data_accessToken d \<noteq> []" and "truthy P (decodeJWT (data_accessToken d))"
    and "numbers_written P (user (auth (loginAsync P fetch c w)))"
  shows "userInfo (decodeJWT (data_accessToken d)) = Some (user (auth (loginAsync P fetch c w)))
     \<and> isAuthenticated (auth (loginAsync P fetch c w))
     \<and> initialState P (browser (loginAsync P fetch c w)) =
         Some ((auth (loginAsync P fetch c w))
                 \<lparr>user := reread P (drop_undefined (user (auth (loginAsync P fetch c w)))),
                  refreshToken := Some (data_refreshToken d), loginMessage := None\<rparr>)
     \<and> (carries (decodeJWT (data_accessToken d)) (js ''email'')
          \<and> carries (decodeJWT (data_accessToken d)) (js ''nameid'')
          \<and> carries (decodeJWT (data_accessToken d)) (js ''unique_name'')
          \<and> carries (decodeJWT (data_accessToken d)) (js ''role'')
          \<and> written_as_read P (user (auth (loginAsync P fetch c w)))
        \<longrightarrow> initialState P (browser (loginAsync P fetch c w)) =
              Some ((auth (loginAsync P fetch c w))
                      \<lparr>refreshToken := Some (data_refreshToken d), loginMessage := None\<rparr>))"
proof -
  from userInfo_truthy [OF assms(6)] obtain info
    where info: "userInfo (decodeJWT (data_accessToken d)) = Some info" by blast
  from userInfo_Some [OF info] obtain ms where "info = JObj ms" by blast
  then have t: "truthy P info" by simp
  from loginAsync_decoded [where fetch = fetch and c = c and w = w, OF assms(1-6) info t]
  have u: "user (auth (loginAsync P fetch c w)) = info" by simp
  with assms(7) have n: "numbers_written P info" by simp
  note r = restart_after_login [where fetch = fetch and c = c and w = w, OF assms(1-6) info n]
  from info u r user_info_unchanged [OF info, of P] show ?thesis by simp
qed

text \<open>Scenario A: all four claims are carried, and the restart gives the user of the login.\<close>

theorem session_restart_witness:
  "ok alice_login \<and> data_success alice_body
   \<and> truthy example_platform (decodeJWT (data_accessToken alice_body))
   \<and> numbers_written example_platform
        (user (auth (loginAsync example_platform (answering alice_login) alice fresh_world)))
   \<and> written_as_read example_platform
        (user (auth (loginAsync example_platform (answering alice_login) alice fresh_world)))
   \<and> carries (decodeJWT (data_accessToken alice_body)) (js ''email'')
   \<and> carries (decodeJWT (data_accessToken alice_body)) (js ''nameid'')
   \<and> carries (decodeJWT (data_accessToken alice_body)) (js ''unique_name'')
   \<and> carries (decodeJWT (data_accessToken alice_body)) (js ''role'')
   \<and> user (auth (loginAsync example_platform (answering alice_login) alice fresh_world))
        = alice_user
   \<and> initialState example_platform
        (browser (loginAsync example_platform (answering alice_login) alice fresh_world)) =
      Some \<lparr>user = alice_user, accessToken = Some alice_token, refreshToken = Some (js ''r1''),
            isAuthenticated = True, loading = False, error = None, loginMessage = None\<rparr>"
proof -
  have t: "truthy example_platform (decodeJWT (data_accessToken alice_body))"
    by (simp add: alice_body_decoded(2))
  have n: "numbers_written example_platform
        (user (auth (loginAsync example_platform (answering alice_login) alice fresh_world)))"
    by (simp add: alice_logged_in alice_user_def)
  have e: "written_as_read example_platform
        (user (auth (loginAsync example_platform (answering alice_login) alice fresh_world)))"
    by (simp add: alice_logged_in alice_user_def)
  have "userInfo (decodeJWT (data_accessToken alice_body)) =
          Some (user (auth (loginAsync example_platform (answering alice_login) alice fresh_world)))
     \<and> isAuthenticated (auth (loginAsync example_platform (answering alice_login) alice fresh_world))
     \<and> initialState example_platform
          (browser (loginAsync example_platform (answering alice_login) alice fresh_world)) =
         Some ((auth (loginAsync example_platform (answering alice_login) alice fresh_world))
                 \<lparr>user := reread example_platform (drop_undefined
                    (user (auth (loginAsync example_platform (answering alice_login) alice
                       fresh_world)))),
                  refreshToken := Some (data_refreshToken alice_body), loginMessage := None\<rparr>)
     \<and> (carries (decodeJWT (data_accessToken alice_body)) (js ''email'')
          \<and> carries (decodeJWT (data_accessToken alice_body)) (js ''nameid'')
          \<and> carries (decodeJWT (data_accessToken alice_body)) (js ''unique_name'')
          \<and> carries (decodeJWT (data_accessToken alice_body)) (js ''role'')
          \<and> written_as_read example_platform
               (user (auth (loginAsync example_platform (answering alice_login) alice
                  fresh_world)))
        \<longrightarrow> initialState example_platform
              (browser (loginAsync example_platform (answering alice_login) alice fresh_world)) =
              Some ((auth (loginAsync example_platform (answering alice_login) alice fresh_world))
                      \<lparr>refreshToken := Some (data_refreshToken alice_body),
                       loginMessage := None\<rparr>))"
    by (rule session_restart [where fetch = "answering alice_login" and r = alice_login
          and d = alice_body, OF alice_login_facts(1) alice_login_facts(2) alice_login_facts(3)
          alice_login_facts(4) alice_body_decoded(1) t n])
  with alice_carried e have "initialState example_platform
              (browser (loginAsync example_platform (answering alice_login) alice fresh_world)) =
              Some ((auth (loginAsync example_platform (answering alice_login) alice fresh_world))
                      \<lparr>refreshToken := Some (data_refreshToken alice_body),
                       loginMessage := None\<rparr>)"
    by blast
  with t n e alice_carried show ?thesis
    by (simp add: alice_login_facts alice_logged_in)
qed

text \<open>
  A login whose token carries the claim \<open>email\<close> only: the user of the login has four
  properties, three of them \<^verbatim>\<open>undefined\<close>; the user of the initial state computed from
  the storage has the property \<open>email\<close> and no other. The two records differ.
\<close>

theorem partial_claims_counterexample:
  "ok email_only_login \<and> data_success email_only_body
   \<and> decodeJWT (data_accessToken email_only_body) = JObj [(js ''email'', JStr (js ''a@b.com''))]
   \<and> truthy example_platform (decodeJWT (data_accessToken email_only_body))
   \<and> user (auth (loginAsync example_platform (answering email_only_login) alice fresh_world)) =
       JObj [(js ''email'', JStr (js ''a@b.com'')), (js ''nameid'', JUndefined),
             (js ''unique_name'', JUndefined), (js ''role'', JUndefined)]
   \<and> initialState example_platform
        (browser (loginAsync example_platform (answering email_only_login) alice fresh_world)) =
       Some \<lparr>user = JObj [(js ''email'', JStr (js ''a@b.com''))],
             accessToken = Some email_only_token, refreshToken = Some (js ''r3''),
             isAuthenticated = True, loading = False, error = None, loginMessage = None\<rparr>
   \<and> map_option user
        (initialState example_platform
          (browser (loginAsync example_platform (answering email_only_login) alice fresh_world)))
       \<noteq> Some (user (auth (loginAsync example_platform (answering email_only_login) alice
                  fresh_world)))"
proof -
  note r = restart_after_login [where fetch = "answering email_only_login" and c = alice
      and w = fresh_world and P = example_platform,
      OF email_only_login_facts(1) email_only_login_facts(2) email_only_login_facts(3)
      email_only_login_facts(4) email_only_body_decoded]
  show ?thesis
    by (simp add: r email_only_login_facts decode_email_only_token)
qed

section \<open>Logins whose token cannot be decoded\<close>

text \<open>
  C1 (as amended). When the response is 2xx with \<open>success: true\<close> and a token whose decoding
  fails, the decoder returns null without throwing and the login is fulfilled all the
  same: the state after it is authenticated, with the token of the response as access
  token, no error, and null as user (unless the body of the response itself carried a
  user).
\<close>

theorem login_with_undecodable_token:
  assumes "fetch c = Some r" and "ok r" and "body_json r = Some d" and "data_success d"
    and "data_accessToken d \<noteq> []" and "decodeJWT (data_accessToken d) = JNull"
  shows "auth (loginAsync P fetch c w) =
     \<lparr>user = (if truthy P (data_user d) then data_user d else JNull),
      accessToken = Some (data_accessToken d),
      refreshToken = or_null (data_refreshToken d),
      isAuthenticated = True, loading = False, error = None,
      loginMessage = or_null (data_message d)\<rparr>"
  using assms loginAsync_not_decoded [of fetch c r d P w] by simp

theorem login_with_undecodable_token_witness:
  "ok opaque_login \<and> decodeJWT (data_accessToken opaque_body) = JNull
   \<and> auth (loginAsync example_platform (answering opaque_login) alice fresh_world) =
     \<lparr>user = JNull, accessToken = Some (js ''opaque-token''), refreshToken = Some (js ''r2''),
      isAuthenticated = True, loading = False, error = None, loginMessage = Some (js ''ok'')\<rparr>"
proof -
  have "auth (loginAsync example_platform (answering opaque_login) alice fresh_world) =
     \<lparr>user = (if truthy example_platform (data_user opaque_body) then data_user opaque_body
              else JNull),
      accessToken = Some (data_accessToken opaque_body),
      refreshToken = or_null (data_refreshToken opaque_body),
      isAuthenticated = True, loading = False, error = None,
      loginMessage = or_null (data_message opaque_body)\<rparr>"
    by (rule login_with_undecodable_token [where fetch = "answering opaque_login"
          and r = opaque_login, OF opaque_login_facts(1) opaque_login_facts(2)
          opaque_login_facts(3) opaque_login_facts(4) opaque_body_not_decoded(1)
          opaque_body_not_decoded(2)])
  then show ?thesis
    by (simp add: opaque_login_facts decode_opaque or_null_def js_nonempty)
qed

text \<open>
  Property P4: a token with no dot in a response of status 200. The decoder returns null,
  and the state after the login is authenticated and has no error.
\<close>

theorem login_failed_counterexample:
  "ok opaque_login \<and> decodeJWT (data_accessToken opaque_body) = JNull
   \<and> isAuthenticated (auth (loginAsync example_platform (answering opaque_login) alice fresh_world))
   \<and> error (auth (loginAsync example_platform (answering opaque_login) alice fresh_world)) = None"
  by (simp add: opaque_logged_in opaque_login_facts decode_opaque)

text \<open>
  C10 (as amended). When the response is 2xx with \<open>success: true\<close> and a non-empty access
  token, the two tokens are written to the storage before the token is decoded; if the
  decoded value is then null (or falsy), the storage after the call is the storage before
  it with the access token and the refresh token of the response under their keys. The
  user key is as it was: absent if it was absent, still there if an earlier login left it.
\<close>

theorem tokens_stored_before_decoding:
  assumes "fetch c = Some r" and "ok r" and "body_json r = Some d" and "data_success d"
    and "data_accessToken d \<noteq> []" and "\<not> truthy P (decodeJWT (data_accessToken d))"
  shows "localStorage (snd (login P fetch c b)) =
     (localStorage b)(js ''accessToken'' \<mapsto> data_accessToken d,
                      js ''refreshToken'' \<mapsto> data_refreshToken d)"
  using assms by (simp add: login_ok store_session_not_decoded setItem_def)

theorem tokens_stored_before_decoding_witness:
  "\<not> truthy example_platform (decodeJWT (data_accessToken opaque_body))
   \<and> localStorage (snd (login example_platform (answering opaque_login) alice fresh_browser))
        (js ''accessToken'') = Some (js ''opaque-token'')
   \<and> localStorage (snd (login example_platform (answering opaque_login) alice fresh_browser))
        (js ''refreshToken'') = Some (js ''r2'')
   \<and> localStorage (snd (login example_platform (answering opaque_login) alice fresh_browser))
        (js ''user'') = None"
proof -
  have "localStorage (snd (login example_platform (answering opaque_login) alice fresh_browser)) =
     (localStorage fresh_browser)(js ''accessToken'' \<mapsto> data_accessToken opaque_body,
                                  js ''refreshToken'' \<mapsto> data_refreshToken opaque_body)"
    by (rule tokens_stored_before_decoding [where fetch = "answering opaque_login"
          and r = opaque_login, OF opaque_login_facts(1) opaque_login_facts(2)
          opaque_login_facts(3) opaque_login_facts(4) opaque_body_not_decoded(1)
          opaque_body_not_decoded(3)])
  then show ?thesis
    by (simp add: opaque_login_facts decode_opaque session_keys_distinct fresh_browser_def)
qed

text \<open>
  Alice logs in as in scenario A, and a second login is then answered with the token that
  cannot be decoded: the user key written by the first login is still in the storage.
\<close>

theorem stale_user_counterexample:
  "\<not> truthy example_platform (decodeJWT (data_accessToken opaque_body))
   \<and> localStorage (snd (login example_platform (answering opaque_login) alice
        (browser (loginAsync example_platform (answering alice_login) alice fresh_world))))
        (js ''user'') \<noteq> None"
  by (simp add: alice_logged_in login_ok opaque_login_facts store_session_not_decoded
      decode_opaque js_nonempty setItem_def session_keys_distinct)

section \<open>Failed logins\<close>

text \<open>
  C6. A login that fails leaves the state
  \<open>{user: null, accessToken: null, refreshToken: null, isAuthenticated: false,
  loading: false, error: M, message: null}\<close> and does not touch \<^verbatim>\<open>localStorage\<close> (the
  browser after the call differs from the browser before it in the request sent only).
  When \<^verbatim>\<open>fetch\<close> rejects, \<open>M\<close> is the text \<open>Network error or server unavailable\<close>;
  when the response is not 2xx and carries the message \<open>M\<close>, the error is that message.
  (A response that is not 2xx and carries no message, or an empty one, gives
  \<open>An error occurred\<close>: lemma \<open>login_not_ok\<close>.)
\<close>

theorem login_failure:
  "(fetch c = None \<longrightarrow>
      loginAsync P fetch c w =
        \<lparr>browser = (browser w)\<lparr>requests := requests (browser w) @ [c]\<rparr>,
         auth = \<lparr>user = JNull, accessToken = None, refreshToken = None, isAuthenticated = False,
                 loading = False, error = Some (js ''Network error or server unavailable''),
                 loginMessage = None\<rparr>\<rparr>)
   \<and> (fetch c = Some r \<and> \<not> ok r \<and> body_json r = Some d \<and> data_message d = M \<and> M \<noteq> [] \<longrightarrow>
      loginAsync P fetch c w =
        \<lparr>browser = (browser w)\<lparr>requests := requests (browser w) @ [c]\<rparr>,
         auth = \<lparr>user = JNull, accessToken = None, refreshToken = None, isAuthenticated = False,
                 loading = False, error = Some M, loginMessage = None\<rparr>\<rparr>)"
  by (simp add: loginAsync_def login_transport_failure login_not_ok rejected_pending
      network_error_def)

text \<open>Property P6, and a server that cannot be reached.\<close>

theorem login_failure_witness:
  "\<not> ok invalid_credentials
   \<and> error (auth (loginAsync example_platform (answering invalid_credentials) alice fresh_world))
       = Some (js ''Invalid credentials'')
   \<and> localStorage (browser (loginAsync example_platform (answering invalid_credentials) alice
                              fresh_world))
       = localStorage (browser fresh_world)
   \<and> error (auth (loginAsync example_platform unreachable_server alice fresh_world))
       = Some (js ''Network error or server unavailable'')"
proof -
  have n: "\<not> ok invalid_credentials"
    by (simp add: ok_def invalid_credentials_def)
  have b: "body_json invalid_credentials = Some invalid_credentials_body"
    by (simp add: invalid_credentials_def)
  have d: "data_message invalid_credentials_body = js ''Invalid credentials''"
    by (simp add: invalid_credentials_body_def)
  have m: "js ''Invalid credentials'' \<noteq> []" by (simp add: js_def)
  have f: "answering invalid_credentials alice = Some invalid_credentials"
    by (simp add: answering_def)
  have u: "unreachable_server alice = None"
    by (simp add: unreachable_server_def)
  from n m b d f
    login_failure [where fetch = "answering invalid_credentials" and c = alice
      and P = example_platform and w = fresh_world and r = invalid_credentials
      and d = invalid_credentials_body and M = "js ''Invalid credentials''"]
  have 1: "loginAsync example_platform (answering invalid_credentials) alice fresh_world =
        \<lparr>browser = (browser fresh_world)\<lparr>requests := requests (browser fresh_world) @ [alice]\<rparr>,
         auth = \<lparr>user = JNull, accessToken = None, refreshToken = None, isAuthenticated = False,
                 loading = False, error = Some (js ''Invalid credentials''), loginMessage = None\<rparr>\<rparr>"
    by simp
  from u login_failure [where fetch = unreachable_server and c = alice and P = example_platform
      and w = fresh_world]
  have 2: "loginAsync example_platform unreachable_server alice fresh_world =
        \<lparr>browser = (browser fresh_world)\<lparr>requests := requests (browser fresh_world) @ [alice]\<rparr>,
         auth = \<lparr>user = JNull, accessToken = None, refreshToken = None, isAuthenticated = False,
                 loading = False, error = Some (js ''Network error or server unavailable''),
                 loginMessage = None\<rparr>\<rparr>"
    by simp
  show ?thesis
    by (simp add: n 1 2)
qed

section \<open>User and access token\<close>

text \<open>
  C2 (as amended). In every state the application reaches by logging in, logging out and
  clearing the error, from a storage where the user key is not without the access-token
  key (the empty storage of the first visit is one) and against servers that send no user
  of their own, a user that is not null comes with an access token that is not null. The
  converse does not hold: after a 2xx response whose token cannot be decoded the access
  token is set and the user is null.
\<close>

theorem user_implies_accessToken:
  "reachable P store_consistent no_user_field w \<Longrightarrow>
   user (auth w) \<noteq> JNull \<longrightarrow> accessToken (auth w) \<noteq> None"
  using reachable_user_has_token [of P w] by (simp add: user_has_token_def)

theorem user_implies_accessToken_witness:
  "reachable example_platform store_consistent no_user_field
     (loginAsync example_platform (answering alice_login) alice fresh_world)
   \<and> user (auth (loginAsync example_platform (answering alice_login) alice fresh_world)) \<noteq> JNull
   \<and> accessToken (auth (loginAsync example_platform (answering alice_login) alice fresh_world))
        \<noteq> None"
proof -
  have r: "reachable example_platform store_consistent no_user_field
     (loginAsync example_platform (answering alice_login) alice fresh_world)"
    by (rule reachable.after_login [where F = no_user_field and fetch = "answering alice_login",
          OF fresh_world_reachable no_user_field_alice])
  have u: "user (auth (loginAsync example_platform (answering alice_login) alice fresh_world))
      \<noteq> JNull"
    by (simp add: alice_logged_in alice_user_def)
  from user_implies_accessToken [OF r] u r show ?thesis by simp
qed

text \<open>
  On the first visit a login is answered with status 200 and a token that has no dot: the
  state reached has an access token and no user.
\<close>

theorem token_without_user_counterexample:
  "reachable example_platform store_consistent no_user_field
     (loginAsync example_platform (answering opaque_login) alice fresh_world)
   \<and> user (auth (loginAsync example_platform (answering opaque_login) alice fresh_world)) = JNull
   \<and> accessToken (auth (loginAsync example_platform (answering opaque_login) alice fresh_world))
        = Some (js ''opaque-token'')"
proof -
  have r: "reachable example_platform store_consistent no_user_field
     (loginAsync example_platform (answering opaque_login) alice fresh_world)"
    by (rule reachable.after_login [where F = no_user_field and fetch = "answering opaque_login",
          OF fresh_world_reachable no_user_field_opaque])
  then show ?thesis
    by (simp add: opaque_logged_in)
qed

section \<open>The guard of the form\<close>

lemma loginHandler_sends:
  "trim (email input) \<noteq> [] \<Longrightarrow> trim (password input) \<noteq> [] \<Longrightarrow>
   requests (browser (loginHandler P fetch input w)) = requests (browser w) @ [input]"
  by (auto simp: loginHandler_def loginAsync_def login_def store_session_def setItem_def Let_def
      split: option.splits sum.splits thrown.splits prod.splits)

text \<open>
  C4. When the email or the password is empty after trimming, submitting the form changes
  nothing: the state of the slice, \<^verbatim>\<open>localStorage\<close> and the list of requests sent are
  what they were, so no transition was made and no request went out. (With both fields
  filled in a request does go out: lemma \<open>loginHandler_sends\<close>.)
\<close>

theorem loginHandler_guard:
  "trim (email input) = [] \<or> trim (password input) = [] \<Longrightarrow>
   loginHandler P fetch input w = w
   \<and> requests (browser (loginHandler P fetch input w)) = requests (browser w)"
  by (simp add: loginHandler_def)

theorem loginHandler_guard_witness:
  "trim (email \<lparr>email = [], password = js ''x''\<rparr>) = []
   \<and> loginHandler example_platform unreachable_server \<lparr>email = [], password = js ''x''\<rparr>
       fresh_world = fresh_world
   \<and> requests (browser (loginHandler example_platform unreachable_server
         \<lparr>email = [], password = js ''x''\<rparr> fresh_world)) = []"
proof -
  have t: "trim (email \<lparr>email = [], password = js ''x''\<rparr>) = []"
    by (simp add: trim_def)
  with loginHandler_guard [of "\<lparr>email = [], password = js ''x''\<rparr>" example_platform
      unreachable_server fresh_world]
  show ?thesis by (simp add: fresh_world_def fresh_browser_def)
qed

section \<open>Logout and clearError\<close>

text \<open>
  C8. Logging out never fails (it is a total function with no error to return), logging
  out twice is logging out once, and logging out of a world that is already logged out
  (no key of the session in \<^verbatim>\<open>localStorage\<close>, the unauthenticated state) changes
  nothing.
\<close>

theorem logout_idempotent:
  "logout (logout w) = logout w \<and> (logged_out w \<longrightarrow> logout w = w)"
proof
  show "logout (logout w) = logout w"
    by (simp add: logout_def logoutApi_def removeItem_def)
  show "logged_out w \<longrightarrow> logout w = w"
  proof
    assume lo: "logged_out w"
    then have "localStorage (logoutApi (browser w)) = localStorage (browser w)"
      by (auto simp: logged_out_def session_empty_def logoutApi_def removeItem_def fun_eq_iff)
    then have "logoutApi (browser w) = browser w"
      by (simp add: logoutApi_def removeItem_def)
    moreover from lo have "auth w = unauthenticated" by (simp add: logged_out_def)
    ultimately show "logout w = w"
      by (simp add: logout_def unauthenticated_def)
  qed
qed

theorem logout_idempotent_witness:
  "logged_out fresh_world \<and> logout fresh_world = fresh_world
   \<and> logout (logout fresh_world) = logout fresh_world"
proof -
  have lo: "logged_out fresh_world"
    by (simp add: logged_out_def session_empty_def fresh_world_def fresh_browser_def)
  with logout_idempotent [of fresh_world] show ?thesis by simp
qed

text \<open>
  C9. \<^verbatim>\<open>clearError\<close> sets the error to null and leaves the six other fields of the
  state as they are, whatever the state it is applied to.
\<close>

theorem clearError_frame:
  "error (clearError s) = None \<and> user (clearError s) = user s
   \<and> accessToken (clearError s) = accessToken s \<and> refreshToken (clearError s) = refreshToken s
   \<and> isAuthenticated (clearError s) = isAuthenticated s \<and> loading (clearError s) = loading s
   \<and> loginMessage (clearError s) = loginMessage s"
  by (simp add: clearError_def)

end
